theory Spec2Isabelle
  imports Main "HOL-Library.Char_ord" "HOL-Library.List_Lexorder"
begin

section \<open>Python values and exceptions\<close>

text \<open>
  The module \<^verbatim>\<open>einsteinpy/symbolic/tensor.py\<close> is dynamically typed: a configuration
  argument may be any object. The values that reach the configuration tests are modelled
  by \<open>pyval\<close>: a \<^verbatim>\<open>str\<close>, \<^verbatim>\<open>None\<close>, an \<^verbatim>\<open>int\<close>, or a \<^verbatim>\<open>list\<close>/\<^verbatim>\<open>tuple\<close>.
\<close>

datatype pyval = PStr string | PNone | PInt int | PList "pyval list"

text \<open>
  Exceptions are values. \<open>TypeError\<close> and \<open>ValueError\<close> carry the message of the
  \<^verbatim>\<open>raise\<close> statement (the bare \<^verbatim>\<open>raise ValueError\<close> has the empty message).
\<close>

datatype error = TypeError string | ValueError string | IndexError | KeyError | AxisError

definition msg_arr :: string where
  "msg_arr = ''Only multi-dimensional list or Sympy Array is expected''"

definition msg_config :: string where
  "msg_config =
     ''config is either not of type 'str' or does contain characters other than 'l' or 'u''
       @ [CHR 0x27]"

definition msg_syms :: string where
  "msg_syms = ''syms should be a list or tuple''"

definition msg_variables :: string where
  "msg_variables = ''arguments variables and functions should be a list, tuple or set''"

definition msg_no_len :: "string \<Rightarrow> string" where
  "msg_no_len type_name =
     ''object of type '' @ [CHR 0x27] @ type_name @ [CHR 0x27] @ '' has no len()''"

text \<open>\<^verbatim>\<open>len(x)\<close>: defined on strings, lists and tuples; a \<^verbatim>\<open>TypeError\<close> on \<^verbatim>\<open>None\<close> and numbers.\<close>

fun py_len :: "pyval \<Rightarrow> error + nat" where
  "py_len (PStr s) = Inr (length s)"
| "py_len (PList xs) = Inr (length xs)"
| "py_len PNone = Inl (TypeError (msg_no_len ''NoneType''))"
| "py_len (PInt _) = Inl (TypeError (msg_no_len ''int''))"

section \<open>Configuration validator and difference list\<close>

text \<open>
  \<^verbatim>\<open>
  def _config_checker(config):
      if not isinstance(config, str):
          return False
      for ch in config:
          if (not ch == "l") and (not ch == "u"):
              return False
      return True
  \<close>
\<close>

fun config_checker_loop :: "string \<Rightarrow> bool" where
  "config_checker_loop [] = True"
| "config_checker_loop (ch # rest) =
     (if (\<not> ch = CHR ''l'') \<and> (\<not> ch = CHR ''u'') then False
      else config_checker_loop rest)"

fun config_checker :: "pyval \<Rightarrow> bool" where
  "config_checker (PStr config) = config_checker_loop config"
| "config_checker _ = False"

text \<open>
  \<^verbatim>\<open>
  def _difference_list(newconfig, oldconfig):
      difflist = list()
      for n_ch, o_ch in zip(newconfig, oldconfig):
          if n_ch == o_ch:
              difflist.append(0)
          elif n_ch == "u":
              difflist.append(1)
          else:
              difflist.append(-1)
      return difflist
  \<close>
  \<^verbatim>\<open>zip\<close> stops at the shorter argument.
\<close>

fun difference_list :: "string \<Rightarrow> string \<Rightarrow> int list" where
  "difference_list (n_ch # newconfig) (o_ch # oldconfig) =
     (if n_ch = o_ch then 0 else if n_ch = CHR ''u'' then 1 else - 1)
       # difference_list newconfig oldconfig"
| "difference_list _ _ = []"

section \<open>Symbolic arrays\<close>

text \<open>
  A dense N-dimensional array of the computer-algebra library (\<^verbatim>\<open>sympy.Array\<close>) holds
  its shape and the flat list of its entries in row-major order; \<^verbatim>\<open>numpy\<close> arrays are
  modelled by the same type. The entries are values of a commutative ring \<open>'a\<close>: what a
  symbolic expression denotes.
\<close>

datatype 'a ndarray = NDimArray (shape: "nat list") (elems: "'a list")

definition rank :: "'a ndarray \<Rightarrow> nat" where
  "rank a = length (shape a)"

text \<open>The library builds only arrays with one entry per index tuple.\<close>

definition wf_array :: "'a ndarray \<Rightarrow> bool" where
  "wf_array a \<longleftrightarrow> length (elems a) = prod_list (shape a)"

text \<open>All index tuples of a shape, as \<^verbatim>\<open>itertools.product(range(d0), range(d1), ...)\<close>.\<close>

definition indices :: "nat list \<Rightarrow> nat list list" where
  "indices sh = product_lists (map (\<lambda>d. [0..<d]) sh)"

text \<open>The flat position of an index tuple (row-major).\<close>

fun ravel :: "nat list \<Rightarrow> nat list \<Rightarrow> nat" where
  "ravel (d # ds) (i # is) = i * prod_list ds + ravel ds is"
| "ravel _ _ = 0"

definition get :: "'a ndarray \<Rightarrow> nat list \<Rightarrow> 'a" where
  "get a idx = elems a ! ravel (shape a) idx"

definition tabulate :: "nat list \<Rightarrow> (nat list \<Rightarrow> 'a) \<Rightarrow> 'a ndarray" where
  "tabulate sh f = NDimArray sh (map f (indices sh))"

definition insert_at :: "nat \<Rightarrow> 'b \<Rightarrow> 'b list \<Rightarrow> 'b list" where
  "insert_at j x xs = take j xs @ x # drop j xs"

definition delete_at :: "nat \<Rightarrow> 'b list \<Rightarrow> 'b list" where
  "delete_at j xs = take j xs @ drop (Suc j) xs"

fun index_of :: "'b list \<Rightarrow> 'b \<Rightarrow> nat" where
  "index_of [] x = 0"
| "index_of (y # ys) x = (if x = y then 0 else Suc (index_of ys x))"

text \<open>
  \<^verbatim>\<open>tensorproduct(a, b)\<close>: the array of shape \<^verbatim>\<open>a.shape + b.shape\<close> whose entry at
  \<open>ia @ ib\<close> is \<open>a[ia] * b[ib]\<close>.
\<close>

definition tensorproduct :: "'a::times ndarray \<Rightarrow> 'a ndarray \<Rightarrow> 'a ndarray" where
  "tensorproduct a b =
     tabulate (shape a @ shape b)
       (\<lambda>idx. get a (take (rank a) idx) * get b (drop (rank a) idx))"

text \<open>
  \<^verbatim>\<open>tensorcontraction(array, (p, q))\<close> with one group of two axes: the axes must exist,
  differ and have the same extent; the result drops both axes and sums the entries whose
  indices agree on them. (When no axis remains the library returns the bare scalar; the
  calls made here always keep axis 0.)
\<close>

definition tensorcontraction ::
  "'a::monoid_add ndarray \<Rightarrow> nat \<times> nat \<Rightarrow> error + 'a ndarray" where
  "tensorcontraction array axes =
     (case axes of (p, q) \<Rightarrow>
        if \<not> p < rank array then Inl IndexError
        else if q = p then Inl (ValueError ''dimension specified more than once'')
        else if \<not> q < rank array then Inl IndexError
        else if shape array ! p \<noteq> shape array ! q
          then Inl (ValueError ''cannot contract between axes of different dimension'')
        else Inr (tabulate (delete_at (min p q) (delete_at (max p q) (shape array)))
               (\<lambda>rest. sum_list (map
                  (\<lambda>js. get array (insert_at (max p q) js (insert_at (min p q) js rest)))
                  [0..<shape array ! p]))))"

text \<open>\<^verbatim>\<open>simplify(array)\<close> applies the simplifier to every entry.\<close>

definition simplify_array :: "('a \<Rightarrow> 'a) \<Rightarrow> 'a ndarray \<Rightarrow> 'a ndarray" where
  "simplify_array simplify a = NDimArray (shape a) (map simplify (elems a))"

text \<open>
  \<^verbatim>\<open>a.transpose(axes)\<close>: \<open>axes\<close> must be a permutation of the axes; axis \<open>j\<close> of the
  result is axis \<open>axes[j]\<close> of \<open>a\<close>.
\<close>

definition transpose_axes :: "'a ndarray \<Rightarrow> nat list \<Rightarrow> error + 'a ndarray" where
  "transpose_axes a axes =
     (if \<not> (length axes = rank a \<and> distinct axes \<and> list_all (\<lambda>ax. ax < rank a) axes)
      then Inl (ValueError ''axes do not match array'')
      else Inr (tabulate (map (\<lambda>ax. shape a ! ax) axes)
             (\<lambda>idx. get a (map (\<lambda>m. idx ! index_of axes m) [0..<rank a]))))"

text \<open>
  \<^verbatim>\<open>
  def moveaxis(a, source, destination):
      source = normalize_axis_tuple(source, a.ndim, 'source')
      destination = normalize_axis_tuple(destination, a.ndim, 'destination')
      if len(source) != len(destination):
          raise ValueError(...)
      order = [n for n in range(a.ndim) if n not in source]
      for dest, src in sorted(zip(destination, source)):
          order.insert(dest, src)
      return a.transpose(order)
  \<close>
  \<^verbatim>\<open>normalize_axis_tuple\<close> rejects an axis out of range and a repeated axis. The
  destinations are distinct when the pairs are sorted, so the pairs are sorted by
  destination.
\<close>

definition moveaxis :: "'a ndarray \<Rightarrow> nat list \<Rightarrow> nat list \<Rightarrow> error + 'a ndarray" where
  "moveaxis a source destination =
     (if \<not> list_all (\<lambda>ax. ax < rank a) source then Inl AxisError
      else if \<not> distinct source then Inl (ValueError ''repeated axis in source'')
      else if \<not> list_all (\<lambda>ax. ax < rank a) destination then Inl AxisError
      else if \<not> distinct destination then Inl (ValueError ''repeated axis in destination'')
      else if length source \<noteq> length destination
        then Inl (ValueError ''source and destination must have the same number of elements'')
      else transpose_axes a
             (fold (\<lambda>(dest, src) order. insert_at dest src order)
                (sort_key fst (zip destination source))
                (filter (\<lambda>n. n \<notin> set source) [0..<rank a])))"

text \<open>
  The axis order that \<^verbatim>\<open>moveaxis\<close> hands to \<^verbatim>\<open>transpose\<close> when every axis is listed
  as source and the destinations are \<open>i, 0, ..., i - 1, i + 1, ..., n - 1\<close>: the axes
  \<open>1, ..., i\<close>, then axis \<open>0\<close>, then the axes \<open>i + 1, ..., n - 1\<close>.
\<close>

definition moved_order :: "nat \<Rightarrow> nat \<Rightarrow> nat list" where
  "moved_order i n = [Suc 0..<Suc i] @ 0 # [Suc i..<n]"

text \<open>\<^verbatim>\<open>xs.pop(i)\<close> for \<open>0 \<le> i\<close>: an \<^verbatim>\<open>IndexError\<close> when \<open>i\<close> is out of range.\<close>

definition list_pop :: "'b list \<Rightarrow> nat \<Rightarrow> error + 'b list" where
  "list_pop xs i = (if i < length xs then Inr (delete_at i xs) else Inl IndexError)"

section \<open>Tensor\<close>

text \<open>
  The array argument of the constructor: raw data accepted by \<^verbatim>\<open>sympy.Array\<close> (a number
  or expression, or a \<^verbatim>\<open>list\<close>/\<^verbatim>\<open>tuple\<close>/\<^verbatim>\<open>np.ndarray\<close> of such data), a
  \<^verbatim>\<open>sympy.Array\<close>, or an object of another type (\<^verbatim>\<open>None\<close>, a \<^verbatim>\<open>str\<close>).
\<close>

datatype 'a nested = Scalar 'a | Nested "'a nested list"

datatype 'a arr_arg = Raw "'a nested" | SympyArray "'a ndarray" | ArgNone | ArgStr string

fun sequence_err :: "(error + 'b) list \<Rightarrow> error + 'b list" where
  "sequence_err [] = Inr []"
| "sequence_err (Inl e # _) = Inl e"
| "sequence_err (Inr x # rs) =
     (case sequence_err rs of Inl e \<Rightarrow> Inl e | Inr xs \<Rightarrow> Inr (x # xs))"

text \<open>
  \<^verbatim>\<open>sympy.Array(iterable)\<close> reads the shape off the nesting and flattens the entries; a
  ragged or empty nesting is a \<^verbatim>\<open>ValueError\<close>.
\<close>

fun scan_iterable_shape :: "'a nested \<Rightarrow> error + ('a list \<times> nat list)" where
  "scan_iterable_shape (Scalar pointer) = Inr ([pointer], [])"
| "scan_iterable_shape (Nested pointer) =
     (case sequence_err (map scan_iterable_shape pointer) of
        Inl e \<Rightarrow> Inl e
      | Inr [] \<Rightarrow> Inl (ValueError ''not enough values to unpack'')
      | Inr (r # rs) \<Rightarrow>
          if \<not> list_all (\<lambda>r'. snd r' = snd r) rs
          then Inl (ValueError ''could not determine shape unambiguously'')
          else Inr (concat (map fst (r # rs)), length (r # rs) # snd r))"

definition sympy_Array :: "'a nested \<Rightarrow> error + 'a ndarray" where
  "sympy_Array iterable =
     (case scan_iterable_shape iterable of
        Inl e \<Rightarrow> Inl e
      | Inr (flat_list, sh) \<Rightarrow> Inr (NDimArray sh flat_list))"

record 'a Tensor =
  arr :: "'a ndarray"
  config :: string
  order :: nat

text \<open>
  \<^verbatim>\<open>
  def __init__(self, arr, config="ll"):
      if isinstance(arr, (list, tuple, np.ndarray, int, float, Expr)):
          self.arr = sympy.Array(arr)
      elif isinstance(arr, sympy.Array):
          self.arr = arr
      else:
          raise TypeError("Only multi-dimensional list or Sympy Array is expected")
      if _config_checker(config):
          self._config = config
          self._order = len(config)
      else:
          raise TypeError("config is either not of type 'str' or does contain ...")
  \<close>
  A value that passes \<^verbatim>\<open>_config_checker\<close> is a string, so the last case below is never
  taken.
\<close>

definition Tensor_init :: "'a arr_arg \<Rightarrow> pyval \<Rightarrow> error + 'a Tensor" where
  "Tensor_init a cfg =
     (case (case a of
              Raw x \<Rightarrow> sympy_Array x
            | SympyArray x \<Rightarrow> Inr x
            | _ \<Rightarrow> Inl (TypeError msg_arr)) of
        Inl e \<Rightarrow> Inl e
      | Inr self_arr \<Rightarrow>
          if config_checker cfg
          then (case cfg of
                  PStr c \<Rightarrow> Inr \<lparr>arr = self_arr, config = c, order = length c\<rparr>
                | _ \<Rightarrow> Inl (TypeError msg_config))
          else Inl (TypeError msg_config))"

text \<open>\<^verbatim>\<open>def tensor(self): return self.arr\<close>\<close>

definition Tensor_tensor :: "'a Tensor \<Rightarrow> 'a ndarray" where
  "Tensor_tensor self = arr self"

text \<open>
  \<^verbatim>\<open>def subs(self, *args): return Tensor(self.tensor().subs(*args))\<close>

  The array's \<^verbatim>\<open>subs\<close> substitutes in every entry; \<open>subs_expr\<close> is the substitution of
  the library on one entry. The constructor is called without a configuration, so with
  its default \<^verbatim>\<open>"ll"\<close>.
\<close>

definition array_subs :: "('s \<Rightarrow> 'a \<Rightarrow> 'a) \<Rightarrow> 'a ndarray \<Rightarrow> 's \<Rightarrow> 'a ndarray" where
  "array_subs subs_expr a args = NDimArray (shape a) (map (subs_expr args) (elems a))"

definition Tensor_subs :: "('s \<Rightarrow> 'a \<Rightarrow> 'a) \<Rightarrow> 'a Tensor \<Rightarrow> 's \<Rightarrow> error + 'a Tensor" where
  "Tensor_subs subs_expr self args =
     Tensor_init (SympyArray (array_subs subs_expr (Tensor_tensor self) args)) (PStr ''ll'')"

section \<open>Index transform engine\<close>

text \<open>
  Modelled from the spec: the metric collaborator (class \<^verbatim>\<open>MetricTensor\<close>, not part of this
  module). It exposes a covariant form, \<^verbatim>\<open>metric.lower_config().tensor()\<close>, and a
  contravariant (inverse) form, \<^verbatim>\<open>metric.lower_config().inv().tensor()\<close>, both rank-2
  symbolic arrays.
\<close>

record 'a MetricTensor =
  covariant_form :: "'a ndarray"
  contravariant_form :: "'a ndarray"

text \<open>
  \<^verbatim>\<open>
  def chain_config_change():
      t = sympy.Array(tensor.tensor())
      difflist = _difference_list(newconfig, tensor.config)
      for i, action in enumerate(difflist):
          if action == 0:
              continue
          else:
              t = simplify(
                  tensorcontraction(tensorproduct(met_dict[action], t), (1, 2 + i)))
              tmp = np.array(t).reshape(t.shape)
              source, dest = ([p for p in range(len(t.shape))],
                              [p for p in range(len(t.shape))])
              dest.pop(i)
              dest.insert(0, i)
              tmp = np.moveaxis(tmp, source, dest)
              t = sympy.Array(tmp)
      return t
  \<close>
  The loop over \<^verbatim>\<open>enumerate(difflist)\<close> is a recursion on the rest of the list with the
  position \<open>i\<close>. The conversions between \<^verbatim>\<open>sympy\<close> and \<^verbatim>\<open>numpy\<close> arrays keep shape and
  entries.
\<close>

fun chain_config_change ::
  "('a \<Rightarrow> 'a) \<Rightarrow> (int \<rightharpoonup> 'a ndarray) \<Rightarrow> nat \<Rightarrow> int list \<Rightarrow> 'a::comm_ring_1 ndarray
     \<Rightarrow> error + 'a ndarray" where
  "chain_config_change simplify met_dict i [] t = Inr t"
| "chain_config_change simplify met_dict i (action # difflist) t =
     (if action = 0 then chain_config_change simplify met_dict (Suc i) difflist t
      else
        (case met_dict action of
           None \<Rightarrow> Inl KeyError
         | Some met \<Rightarrow>
             (case tensorcontraction (tensorproduct met t) (1, 2 + i) of
                Inl e \<Rightarrow> Inl e
              | Inr c \<Rightarrow>
                  let t' = simplify_array simplify c;
                      tmp = t';
                      source = [0..<length (shape t')];
                      dest = [0..<length (shape t')]
                  in (case list_pop dest i of
                        Inl e \<Rightarrow> Inl e
                      | Inr dest' \<Rightarrow>
                          (case moveaxis tmp source (insert_at 0 i dest') of
                             Inl e \<Rightarrow> Inl e
                           | Inr tmp' \<Rightarrow>
                               chain_config_change simplify met_dict (Suc i) difflist tmp')))))"

text \<open>
  \<^verbatim>\<open>
  def _change_config(tensor, metric, newconfig):
      if not (len(newconfig) == len(tensor.config) and _config_checker(newconfig)):
          raise ValueError
      met_dict = {
          -1: metric.lower_config().tensor(),
          1: metric.lower_config().inv().tensor(),
      }
      ...
      return chain_config_change()
  \<close>
  \<open>simplify\<close> is the simplifier of the library on one entry. A value that passes
  \<^verbatim>\<open>_config_checker\<close> is a string, so the last case below is never taken.
\<close>

definition change_config ::
  "('a \<Rightarrow> 'a) \<Rightarrow> 'a::comm_ring_1 Tensor \<Rightarrow> 'a MetricTensor \<Rightarrow> pyval \<Rightarrow> error + 'a ndarray" where
  "change_config simplify tensor metric newconfig =
     (case py_len newconfig of
        Inl e \<Rightarrow> Inl e
      | Inr n \<Rightarrow>
          if \<not> (n = length (config tensor) \<and> config_checker newconfig)
          then Inl (ValueError [])
          else
            let met_dict = [- 1 \<mapsto> covariant_form metric, 1 \<mapsto> contravariant_form metric]
            in (case newconfig of
                  PStr nc \<Rightarrow>
                    chain_config_change simplify met_dict 0
                      (difference_list nc (config tensor)) (Tensor_tensor tensor)
                | _ \<Rightarrow> Inl (ValueError [])))"

section \<open>BaseRelativityTensor\<close>

datatype symbol = Symbol (symbol_name: string)

text \<open>
  A collection argument: a \<^verbatim>\<open>list\<close>, a \<^verbatim>\<open>tuple\<close>, a \<^verbatim>\<open>set\<close> (its elements in iteration
  order), or an object of another type.
\<close>

datatype 'b collection = CList "'b list" | CTuple "'b list" | CSet "'b list" | NotCollection

fun items :: "'b collection \<Rightarrow> 'b list" where
  "items (CList xs) = xs"
| "items (CTuple xs) = xs"
| "items (CSet xs) = xs"
| "items NotCollection = []"

fun is_list_or_tuple :: "'b collection \<Rightarrow> bool" where
  "is_list_or_tuple (CList _) = True"
| "is_list_or_tuple (CTuple _) = True"
| "is_list_or_tuple _ = False"

fun is_list_tuple_or_set :: "'b collection \<Rightarrow> bool" where
  "is_list_tuple_or_set NotCollection = False"
| "is_list_tuple_or_set _ = True"

record ('a, 'f) BaseRelativityTensor = "'a Tensor" +
  parent_metric :: "'a MetricTensor option"
  name :: "string option"
  syms :: "symbol list"
  dims :: nat
  variables :: "symbol list"
  "functions" :: "'f list"

text \<open>
  \<^verbatim>\<open>
  def __init__(self, arr, syms, config="ll", parent_metric=None,
               variables=list(), functions=list(), name=None):
      super(BaseRelativityTensor, self).__init__(arr=arr, config=config)
      self._parent_metric = parent_metric
      self.name = name
      if isinstance(syms, (list, tuple)):
          self.syms = syms
          self.dims = len(self.syms)
      else:
          raise TypeError("syms should be a list or tuple")
      if isinstance(variables, (list, tuple, set)) and isinstance(
          functions, (list, tuple, set)):
          if not variables:
              self.variables = [
                  v for v in self.arr.free_symbols if v not in self.syms]
              self.variables.sort(key=(lambda var: var.name))
          else:
              self.variables = list(variables)
          if not functions:
              self.functions = [
                  f for f in self.arr.atoms(AppliedUndef).union(
                      self.arr.atoms(UndefinedFunction))]
          else:
              self.functions = list(functions)
      else:
          raise TypeError(
              "arguments variables and functions should be a list, tuple or set")
  \<close>
  \<open>free_symbols\<close>, \<open>atoms_AppliedUndef\<close> and \<open>atoms_UndefinedFunction\<close> are the
  library's scans of an array, each returning the elements of a set in its iteration
  order. \<^verbatim>\<open>not variables\<close> holds of an empty collection.
\<close>

definition BaseRelativityTensor_init ::
  "('a ndarray \<Rightarrow> symbol list) \<Rightarrow> ('a ndarray \<Rightarrow> 'f list) \<Rightarrow> ('a ndarray \<Rightarrow> 'f list) \<Rightarrow>
   'a arr_arg \<Rightarrow> symbol collection \<Rightarrow> pyval \<Rightarrow> 'a MetricTensor option \<Rightarrow>
   symbol collection \<Rightarrow> 'f collection \<Rightarrow> string option \<Rightarrow>
   error + ('a, 'f) BaseRelativityTensor" where
  "BaseRelativityTensor_init free_symbols atoms_AppliedUndef atoms_UndefinedFunction
     a syms_arg cfg parent_metric_arg variables_arg functions_arg name_arg =
     (case Tensor_init a cfg of
        Inl e \<Rightarrow> Inl e
      | Inr self \<Rightarrow>
          if \<not> is_list_or_tuple syms_arg then Inl (TypeError msg_syms)
          else if \<not> (is_list_tuple_or_set variables_arg \<and> is_list_tuple_or_set functions_arg)
          then Inl (TypeError msg_variables)
          else Inr (Tensor.extend self
            \<lparr>parent_metric = parent_metric_arg,
             name = name_arg,
             syms = items syms_arg,
             dims = length (items syms_arg),
             variables =
               (if items variables_arg = []
                then sort_key symbol_name
                       (filter (\<lambda>v. v \<notin> set (items syms_arg)) (free_symbols (arr self)))
                else items variables_arg),
             functions =
               (if items functions_arg = []
                then List.union (atoms_AppliedUndef (arr self))
                       (atoms_UndefinedFunction (arr self))
                else items functions_arg)\<rparr>))"

section \<open>The contracts as the specification words them\<close>

text \<open>
  The specification's validator: true iff the candidate is a non-empty string made of the
  two index markers only.
\<close>

fun ConfigValidator_spec :: "pyval \<Rightarrow> bool" where
  "ConfigValidator_spec (PStr c) =
     (c \<noteq> [] \<and> list_all (\<lambda>ch. ch = CHR ''u'' \<or> ch = CHR ''l'') c)"
| "ConfigValidator_spec _ = False"

text \<open>
  The index transform engine as the specification words it. For an action at axis \<open>i\<close>
  the metric form is the contravariant one for a raise (\<open>+1\<close>) and the covariant one for
  a lower (\<open>-1\<close>); the product of the metric form with the current array is contracted
  over the product axes \<open>p = 1\<close> and \<open>q = 2 + i\<close>; then the axes are permuted so that
  axis 0 of the contraction becomes axis \<open>i\<close> and the other axes keep their relative
  order.
\<close>

definition metric_form_spec :: "'a MetricTensor \<Rightarrow> int \<Rightarrow> 'a ndarray" where
  "metric_form_spec metric action =
     (if action = 1 then contravariant_form metric else covariant_form metric)"

definition contract_spec :: "nat \<Rightarrow> nat \<Rightarrow> 'a::monoid_add ndarray \<Rightarrow> 'a ndarray" where
  "contract_spec p q a =
     tabulate (delete_at p (delete_at q (shape a)))
       (\<lambda>rest. sum_list (map (\<lambda>k. get a (insert_at q k (insert_at p k rest)))
                  [0..<shape a ! p]))"

definition move_axis_spec :: "nat \<Rightarrow> 'a ndarray \<Rightarrow> 'a ndarray" where
  "move_axis_spec i c =
     tabulate (insert_at i (hd (shape c)) (tl (shape c)))
       (\<lambda>idx. get c (idx ! i # delete_at i idx))"

definition step_spec ::
  "('a \<Rightarrow> 'a) \<Rightarrow> 'a::comm_ring_1 MetricTensor \<Rightarrow> int \<Rightarrow> nat \<Rightarrow> 'a ndarray \<Rightarrow> 'a ndarray" where
  "step_spec simplify metric action i t =
     move_axis_spec i
       (simplify_array simplify
          (contract_spec 1 (2 + i) (tensorproduct (metric_form_spec metric action) t)))"

fun transform_spec ::
  "('a \<Rightarrow> 'a) \<Rightarrow> 'a::comm_ring_1 MetricTensor \<Rightarrow> nat \<Rightarrow> int list \<Rightarrow> 'a ndarray \<Rightarrow> 'a ndarray"
  where
  "transform_spec simplify metric i [] t = t"
| "transform_spec simplify metric i (action # actions) t =
     (if action = 0 then transform_spec simplify metric (Suc i) actions t
      else transform_spec simplify metric (Suc i) actions
             (step_spec simplify metric action i t))"

text \<open>
  Raising or lowering the index at axis \<open>i\<close> with the rank-2 array \<open>met\<close>, entry by
  entry: the new entry at \<open>idx\<close> is the sum over \<open>k\<close> of \<open>met[idx[i], k] * t[idx with k at
  axis i]\<close>, simplified.
\<close>

definition raise_lower_spec ::
  "('a \<Rightarrow> 'a) \<Rightarrow> 'a::comm_ring_1 ndarray \<Rightarrow> nat \<Rightarrow> 'a ndarray \<Rightarrow> 'a ndarray" where
  "raise_lower_spec simplify met i t =
     tabulate (shape t)
       (\<lambda>idx. simplify (sum_list (map (\<lambda>k. get met [idx ! i, k] * get t (idx[i := k]))
                  [0..<shape t ! i])))"

text \<open>The two metric forms are inverse matrices of each other, of dimension \<open>d\<close>.\<close>

definition matrix_product_entry :: "'a::comm_ring_1 ndarray \<Rightarrow> 'a ndarray \<Rightarrow> nat \<Rightarrow> nat \<Rightarrow> nat \<Rightarrow> 'a" where
  "matrix_product_entry a b d r c = sum_list (map (\<lambda>k. get a [r, k] * get b [k, c]) [0..<d])"

definition inverse_forms :: "nat \<Rightarrow> 'a::comm_ring_1 MetricTensor \<Rightarrow> bool" where
  "inverse_forms d metric \<longleftrightarrow>
     list_all (\<lambda>r. list_all (\<lambda>c.
         matrix_product_entry (contravariant_form metric) (covariant_form metric) d r c =
           (if r = c then 1 else 0) \<and>
         matrix_product_entry (covariant_form metric) (contravariant_form metric) d r c =
           (if r = c then 1 else 0)) [0..<d]) [0..<d]"

section \<open>The validator\<close>

lemma config_checker_loop_iff:
  "config_checker_loop s \<longleftrightarrow> set s \<subseteq> {CHR ''u'', CHR ''l''}"
  by (induction s) auto

text \<open>
  Claim C2, as the code has it: the validator returns \<open>True\<close> exactly for a string all of
  whose characters are \<open>u\<close> or \<open>l\<close>; every other value is rejected. The empty string has
  no foreign character and is accepted.
\<close>

theorem config_checker_iff:
  "config_checker c \<longleftrightarrow> (\<exists>s. c = PStr s \<and> set s \<subseteq> {CHR ''u'', CHR ''l''})"
  by (cases c) (simp_all add: config_checker_loop_iff)

text \<open>
  Claim C2 as stated asks for a non-empty string: on the empty string the code answers
  \<open>True\<close> where the specification's validator answers \<open>False\<close>.
\<close>

theorem config_checker_empty_string:
  "config_checker (PStr '''') \<and> \<not> ConfigValidator_spec (PStr '''')"
  by simp

section \<open>The difference list\<close>

lemma difference_list_length:
  "length (difference_list newconfig oldconfig) = min (length newconfig) (length oldconfig)"
  by (induction newconfig oldconfig rule: difference_list.induct) simp_all

lemma difference_list_nth:
  "i < length newconfig \<Longrightarrow> i < length oldconfig \<Longrightarrow>
   difference_list newconfig oldconfig ! i =
     (if newconfig ! i = oldconfig ! i then 0 else if newconfig ! i = CHR ''u'' then 1 else - 1)"
proof (induction newconfig oldconfig arbitrary: i rule: difference_list.induct)
  case (1 n_ch newconfig o_ch oldconfig)
  then show ?case by (cases i) simp_all
qed simp_all

text \<open>
  Claim C8: for configurations of equal length the difference list has one action per
  axis position: \<open>0\<close> (no-op) where the characters agree, \<open>1\<close> (raise) where the position
  changes to \<open>u\<close>, \<open>-1\<close> (lower) where it changes to \<open>l\<close>. The specification's
  \<open>Diff(old, new)\<close> is \<open>difference_list new old\<close>, so \<open>Diff("uu","ul") = [0, -1]\<close>,
  \<open>Diff("ll","uu") = [1, 1]\<close> and \<open>Diff("ul","ul") = [0, 0]\<close>.
\<close>

theorem difference_list_actions:
  "length newconfig = length oldconfig \<Longrightarrow>
   length (difference_list newconfig oldconfig) = length oldconfig \<and>
   (\<forall>i < length oldconfig.
      (newconfig ! i = oldconfig ! i \<longrightarrow> difference_list newconfig oldconfig ! i = 0) \<and>
      (newconfig ! i \<noteq> oldconfig ! i \<and> newconfig ! i = CHR ''u'' \<longrightarrow>
         difference_list newconfig oldconfig ! i = 1) \<and>
      (newconfig ! i \<noteq> oldconfig ! i \<and> newconfig ! i = CHR ''l'' \<longrightarrow>
         difference_list newconfig oldconfig ! i = - 1)) \<and>
   difference_list ''ul'' ''uu'' = [0, - 1] \<and>
   difference_list ''uu'' ''ll'' = [1, 1] \<and>
   difference_list ''ul'' ''ul'' = [0, 0]"
  by (simp add: difference_list_length difference_list_nth)

theorem difference_list_actions_witness:
  "length ''lu'' = length ''ul'' \<and> difference_list ''lu'' ''ul'' = [- 1, 1]"
  using difference_list_actions [of "''lu''" "''ul''"] by simp

section \<open>Construction\<close>

lemma Tensor_init_Inr:
  "Tensor_init a cfg = Inr t \<Longrightarrow>
   \<exists>c. cfg = PStr c \<and> config_checker_loop c \<and> config t = c \<and> order t = length c"
  by (auto simp: Tensor_init_def split: sum.splits if_splits pyval.splits)

text \<open>
  Claim C3, as the code has it. The specification's \<open>InvalidType\<close> is the \<^verbatim>\<open>TypeError\<close>
  raised with \<open>msg_arr\<close>, its \<open>InvalidConfiguration\<close> at construction the \<^verbatim>\<open>TypeError\<close>
  raised with \<open>msg_config\<close>. With an array argument the constructor accepts, the
  configuration \<open>lx\<close> raises \<open>InvalidConfiguration\<close>; the array argument \<open>None\<close> raises
  \<open>InvalidType\<close> whatever the configuration; in both cases the result is the error and no
  Tensor. The empty configuration passes the validator: a Tensor of order 0 is built.
\<close>

theorem Tensor_init_errors:
  "(sympy_Array (x :: 'a nested) = Inr y \<longrightarrow>
      Tensor_init (Raw x) (PStr ''lx'') = Inl (TypeError msg_config)) \<and>
   Tensor_init (SympyArray (z :: 'a ndarray)) (PStr ''lx'') = Inl (TypeError msg_config) \<and>
   Tensor_init (ArgNone :: 'a arr_arg) cfg = Inl (TypeError msg_arr) \<and>
   Tensor_init (SympyArray z) (PStr '''') = Inr \<lparr>arr = z, config = '''', order = 0\<rparr>"
  by (simp add: Tensor_init_def)

theorem Tensor_init_errors_witness:
  "sympy_Array (Nested [Scalar (1::int), Scalar 2]) = Inr (NDimArray [2] [1, 2]) \<and>
   Tensor_init (Raw (Nested [Scalar (1::int), Scalar 2])) (PStr ''lx'') =
     Inl (TypeError msg_config)"
  using Tensor_init_errors [of "Nested [Scalar (1::int), Scalar 2]" "NDimArray [2] [1, 2]"
      "NDimArray [2] [1, 2]" PNone]
  by (simp add: sympy_Array_def)

text \<open>
  Claim C3 as stated says the empty configuration raises \<open>InvalidConfiguration\<close>: the
  constructor returns a Tensor instead.
\<close>

theorem Tensor_init_empty_config:
  "Tensor_init (Raw (Nested [Scalar (1::int), Scalar 2])) (PStr '''') =
     Inr \<lparr>arr = NDimArray [2] [1, 2], config = '''', order = 0\<rparr>"
  by (simp add: Tensor_init_def sympy_Array_def)

section \<open>Substitution\<close>

text \<open>
  Claim C4 on the code: \<^verbatim>\<open>subs\<close> returns a Tensor whose array is the entry-wise
  substituted array, but whose configuration is always the constructor's default \<open>ll\<close> and
  whose order is 2: the configuration of the receiver is not passed on. A Tensor with
  configuration \<open>u\<close> comes back with configuration \<open>ll\<close>.
\<close>

theorem Tensor_subs_config:
  "Tensor_subs subs_expr self args =
     Inr \<lparr>arr = array_subs subs_expr (arr self) args, config = ''ll'', order = 2\<rparr> \<and>
   Tensor_subs (\<lambda>n x. x + n)
       \<lparr>arr = NDimArray [2] [1, 2 :: int], config = ''u'', order = 1\<rparr> (10 :: int) =
     Inr \<lparr>arr = NDimArray [2] [11, 12], config = ''ll'', order = 2\<rparr>"
  by (simp add: Tensor_subs_def Tensor_init_def Tensor_tensor_def array_subs_def)

section \<open>Configuration change: entry checks and the identity case\<close>

lemma difference_list_same: "difference_list c c = replicate (length c) 0"
  by (induction c) simp_all

lemma chain_config_change_noop:
  "chain_config_change simplify met_dict i (replicate n 0) t = Inr t"
  by (induction n arbitrary: i) simp_all

text \<open>
  Claim C7: for every constructed Tensor and every metric, a change to the Tensor's own
  configuration passes the entry check, has the all-zero action list (one no-op per axis,
  so no contraction is performed) and returns the Tensor's array. The functions are pure:
  the Tensor that was passed in is the same value afterwards.
\<close>

theorem change_config_same:
  "Tensor_init a cfg = Inr t \<Longrightarrow>
   change_config simplify t metric (PStr (config t)) = Inr (Tensor_tensor t) \<and>
   difference_list (config t) (config t) = replicate (order t) 0"
  by (auto dest!: Tensor_init_Inr
      simp: change_config_def difference_list_same chain_config_change_noop)

theorem change_config_same_witness:
  "Tensor_init (SympyArray (NDimArray [2] [3, 4 :: int])) (PStr ''u'') =
     Inr \<lparr>arr = NDimArray [2] [3, 4], config = ''u'', order = 1\<rparr> \<and>
   change_config id \<lparr>arr = NDimArray [2] [3, 4 :: int], config = ''u'', order = 1\<rparr>
     \<lparr>covariant_form = NDimArray [2, 2] [1, 0, 0, 1],
      contravariant_form = NDimArray [2, 2] [1, 0, 0, 1]\<rparr>
     (PStr ''u'') = Inr (NDimArray [2] [3, 4])"
proof -
  have h: "Tensor_init (SympyArray (NDimArray [2] [3, 4 :: int])) (PStr ''u'') =
     Inr \<lparr>arr = NDimArray [2] [3, 4], config = ''u'', order = 1\<rparr>"
    by (simp add: Tensor_init_def)
  show ?thesis
    using h change_config_same [OF h, of id
        "\<lparr>covariant_form = NDimArray [2, 2] [1, 0, 0, 1],
          contravariant_form = NDimArray [2, 2] [1, 0, 0, 1]\<rparr>"]
    by (simp add: Tensor_tensor_def)
qed

text \<open>
  Claim C9, as the code has it. The specification's \<open>InvalidConfiguration\<close> of a
  configuration change is the bare \<^verbatim>\<open>raise ValueError\<close>. A new configuration that has a
  length (a string, a list, a tuple) and whose length differs from the Tensor's, or which
  fails the validator, is rejected with that error; the result does not depend on the
  array or the metric, so nothing has been contracted. A value without a length is
  rejected by \<^verbatim>\<open>len\<close> itself, which is evaluated first, with its \<^verbatim>\<open>TypeError\<close>.
\<close>

theorem change_config_rejects:
  "(py_len newconfig = Inr n \<and> (n \<noteq> length (config t) \<or> \<not> config_checker newconfig) \<longrightarrow>
      change_config simplify t metric newconfig = Inl (ValueError [])) \<and>
   (py_len newconfig = Inl e \<longrightarrow> change_config simplify t metric newconfig = Inl e)"
  by (auto simp: change_config_def)

theorem change_config_rejects_witness:
  "py_len (PStr ''lll'') = Inr 3 \<and>
   change_config id \<lparr>arr = NDimArray [2] [3, 4 :: int], config = ''u'', order = 1\<rparr>
     \<lparr>covariant_form = NDimArray [2, 2] [1, 0, 0, 1],
      contravariant_form = NDimArray [2, 2] [1, 0, 0, 1]\<rparr>
     (PStr ''lll'') = Inl (ValueError []) \<and>
   py_len (PStr ''x'') = Inr 1 \<and>
   change_config id \<lparr>arr = NDimArray [2] [3, 4 :: int], config = ''u'', order = 1\<rparr>
     \<lparr>covariant_form = NDimArray [2, 2] [1, 0, 0, 1],
      contravariant_form = NDimArray [2, 2] [1, 0, 0, 1]\<rparr>
     (PStr ''x'') = Inl (ValueError []) \<and>
   py_len (PInt 5) = Inl (TypeError (msg_no_len ''int'')) \<and>
   change_config id \<lparr>arr = NDimArray [2] [3, 4 :: int], config = ''u'', order = 1\<rparr>
     \<lparr>covariant_form = NDimArray [2, 2] [1, 0, 0, 1],
      contravariant_form = NDimArray [2, 2] [1, 0, 0, 1]\<rparr>
     (PInt 5) = Inl (TypeError (msg_no_len ''int''))"
  using
    change_config_rejects [of "PStr ''lll''" 3
      "\<lparr>arr = NDimArray [2] [3, 4 :: int], config = ''u'', order = 1\<rparr>" id
      "\<lparr>covariant_form = NDimArray [2, 2] [1, 0, 0, 1],
        contravariant_form = NDimArray [2, 2] [1, 0, 0, 1]\<rparr>" e]
    change_config_rejects [of "PStr ''x''" 1
      "\<lparr>arr = NDimArray [2] [3, 4 :: int], config = ''u'', order = 1\<rparr>" id
      "\<lparr>covariant_form = NDimArray [2, 2] [1, 0, 0, 1],
        contravariant_form = NDimArray [2, 2] [1, 0, 0, 1]\<rparr>" e]
    change_config_rejects [of "PInt 5" n
      "\<lparr>arr = NDimArray [2] [3, 4 :: int], config = ''u'', order = 1\<rparr>" id
      "\<lparr>covariant_form = NDimArray [2, 2] [1, 0, 0, 1],
        contravariant_form = NDimArray [2, 2] [1, 0, 0, 1]\<rparr>" "TypeError (msg_no_len ''int'')"]
  by simp

text \<open>
  Claim C9 as stated promises \<open>InvalidConfiguration\<close> for every value that fails the
  validator: \<^verbatim>\<open>None\<close> fails it, and the call ends in the \<^verbatim>\<open>TypeError\<close> of \<^verbatim>\<open>len\<close>, not
  in the \<^verbatim>\<open>ValueError\<close>.
\<close>

theorem change_config_None:
  "\<not> config_checker PNone \<and>
   change_config id \<lparr>arr = NDimArray [2] [3, 4 :: int], config = ''u'', order = 1\<rparr>
     \<lparr>covariant_form = NDimArray [2, 2] [1, 0, 0, 1],
      contravariant_form = NDimArray [2, 2] [1, 0, 0, 1]\<rparr>
     PNone = Inl (TypeError (msg_no_len ''NoneType'')) \<and>
   TypeError (msg_no_len ''NoneType'') \<noteq> ValueError []"
  by (simp add: change_config_def)

section \<open>Index tuples and entries\<close>

lemma in_indices: "idx \<in> set (indices sh) \<longleftrightarrow> list_all2 (<) idx sh"
  by (simp add: indices_def product_lists_set list_all2_map2)

lemma blocks_upt:
  "concat (map (\<lambda>i. map (\<lambda>j. i * p + j) [0..<p]) [0..<d]) = [0..<d * p]"
proof (induction d)
  case 0
  then show ?case by simp
next
  case (Suc d)
  have m: "map (\<lambda>j. d * p + j) [0..<p] = [d * p..<d * p + p]"
    using map_add_upt [of "d * p" p] by (simp add: add.commute)
  have u: "[0..<d * p + p] = [0..<d * p] @ [d * p..<d * p + p]"
    by (rule upt_add_eq_append) simp
  have "concat (map (\<lambda>i. map (\<lambda>j. i * p + j) [0..<p]) [0..<Suc d]) =
      concat (map (\<lambda>i. map (\<lambda>j. i * p + j) [0..<p]) [0..<d]) @ map (\<lambda>j. d * p + j) [0..<p]"
    by simp
  also have "\<dots> = [0..<d * p] @ [d * p..<d * p + p]"
    by (simp only: Suc m)
  also have "\<dots> = [0..<Suc d * p]"
    by (simp only: u [symmetric]) (simp add: add.commute)
  finally show ?case .
qed

lemma map_ravel_indices: "map (ravel sh) (indices sh) = [0..<prod_list sh]"
proof (induction sh)
  case Nil
  then show ?case by (simp add: indices_def)
next
  case (Cons d ds)
  have ind: "indices (d # ds) = concat (map (\<lambda>i. map ((#) i) (indices ds)) [0..<d])"
    by (simp add: indices_def)
  have "map (ravel (d # ds)) (indices (d # ds)) =
      concat (map (\<lambda>i. map (\<lambda>j. i * prod_list ds + j) (map (ravel ds) (indices ds))) [0..<d])"
    by (simp add: ind map_concat comp_def)
  also have "\<dots> = [0..<d * prod_list ds]"
    by (simp only: Cons.IH blocks_upt)
  finally show ?case by simp
qed

lemma length_indices: "length (indices sh) = prod_list sh"
  using arg_cong [OF map_ravel_indices [of sh], of length] by simp

lemma shape_tabulate [simp]: "shape (tabulate sh f) = sh"
  by (simp add: tabulate_def)

lemma shape_simplify_array [simp]: "shape (simplify_array s a) = shape a"
  by (simp add: simplify_array_def)

lemma rank_simplify_array [simp]: "rank (simplify_array f a) = rank a"
  by (simp add: simplify_array_def rank_def)

lemma wf_tabulate [simp]: "wf_array (tabulate sh f)"
  by (simp add: wf_array_def tabulate_def length_indices)

lemma get_tabulate:
  assumes "list_all2 (<) idx sh"
  shows "get (tabulate sh f) idx = f idx"
proof -
  from assms have "idx \<in> set (indices sh)" by (simp add: in_indices)
  then obtain p where p: "p < length (indices sh)" "indices sh ! p = idx"
    by (auto simp: in_set_conv_nth)
  have "ravel sh idx = map (ravel sh) (indices sh) ! p"
    using p by simp
  also have "\<dots> = p"
    using p by (simp only: map_ravel_indices) (simp add: length_indices)
  finally show ?thesis
    using p by (simp add: get_def tabulate_def)
qed

lemma tabulate_get:
  assumes "wf_array a"
  shows "tabulate (shape a) (get a) = a"
proof -
  have "map (get a) (indices (shape a)) = map ((!) (elems a)) (map (ravel (shape a)) (indices (shape a)))"
    by (simp add: get_def comp_def)
  also have "\<dots> = elems a"
    using map_nth [of "elems a"] assms
    by (simp only: map_ravel_indices) (simp add: wf_array_def)
  finally show ?thesis
    by (cases a) (simp add: tabulate_def)
qed

lemma tabulate_cong:
  "(\<And>idx. list_all2 (<) idx sh \<Longrightarrow> f idx = g idx) \<Longrightarrow> tabulate sh f = tabulate sh g"
  by (simp add: tabulate_def in_indices)

lemma simplify_array_tabulate:
  "simplify_array s (tabulate sh f) = tabulate sh (\<lambda>idx. s (f idx))"
  by (simp add: simplify_array_def tabulate_def)

section \<open>The rank of the transformed array\<close>

lemma rank_tensorproduct: "rank (tensorproduct a b) = rank a + rank b"
  by (simp add: tensorproduct_def rank_def)

lemma length_delete_at: "j < length xs \<Longrightarrow> length (delete_at j xs) = length xs - 1"
  by (simp add: delete_at_def)

lemma tensorcontraction_rank:
  "tensorcontraction a (p, q) = Inr c \<Longrightarrow> rank c + 2 = rank a"
  by (auto simp: tensorcontraction_def rank_def length_delete_at min_def max_def
      split: if_splits)

lemma transpose_axes_rank: "transpose_axes a axes = Inr r \<Longrightarrow> rank r = rank a"
  by (auto simp: transpose_axes_def rank_def split: if_splits)

lemma moveaxis_rank: "moveaxis a s d = Inr r \<Longrightarrow> rank r = rank a"
  by (auto simp: moveaxis_def dest: transpose_axes_rank split: if_splits)

lemma chain_config_change_rank:
  "chain_config_change simplify met_dict i difflist t = Inr r \<Longrightarrow>
   (\<And>k m. met_dict k = Some m \<Longrightarrow> rank m = 2) \<Longrightarrow> rank r = rank t"
proof (induction difflist arbitrary: i t)
  case Nil
  then show ?case by simp
next
  case (Cons action difflist)
  show ?case
  proof (cases "action = 0")
    case True
    with Cons show ?thesis by simp
  next
    case False
    from Cons.prems(1) False obtain met c dest' tmp' where
      m: "met_dict action = Some met" and
      c: "tensorcontraction (tensorproduct met t) (1, 2 + i) = Inr c" and
      mv: "moveaxis (simplify_array simplify c)
             [0..<length (shape (simplify_array simplify c))] (insert_at 0 i dest') = Inr tmp'" and
      r: "chain_config_change simplify met_dict (Suc i) difflist tmp' = Inr r"
      by (auto simp: Let_def split: option.splits sum.splits)
    have "rank met = 2" using Cons.prems(2) m by blast
    with tensorcontraction_rank [OF c] have "rank c = rank t"
      by (simp add: rank_tensorproduct)
    moreover have "rank tmp' = rank c" using moveaxis_rank [OF mv] by simp
    moreover have "rank r = rank tmp'" using Cons.IH [OF r] Cons.prems(2) by blast
    ultimately show ?thesis by simp
  qed
qed

lemma change_config_rank:
  assumes "change_config simplify t metric newconfig = Inr a'"
    and "rank (covariant_form metric) = 2" and "rank (contravariant_form metric) = 2"
  shows "rank a' = rank (arr t) \<and>
    (\<exists>nc. newconfig = PStr nc \<and> config_checker_loop nc \<and> length nc = length (config t))"
proof -
  from assms(1) obtain nc where
    nc: "newconfig = PStr nc" "config_checker_loop nc" "length nc = length (config t)" and
    ch: "chain_config_change simplify
           [- 1 \<mapsto> covariant_form metric, 1 \<mapsto> contravariant_form metric] 0
           (difference_list nc (config t)) (arr t) = Inr a'"
    by (auto simp: change_config_def Let_def Tensor_tensor_def
        split: sum.splits if_splits pyval.splits)
  have "rank a' = rank (arr t)"
    by (rule chain_config_change_rank [OF ch]) (auto simp: assms split: if_splits)
  with nc show ?thesis by simp
qed

text \<open>
  Claim C5, as the code has it by design. Every Tensor the constructor returns has
  \<open>order = len(config)\<close>; the rank of the array is not compared with them at construction.
  A configuration change with rank-2 metric forms that succeeds on a Tensor with
  \<open>order = len(config) = rank(array)\<close> returns an array of the same rank, and the Tensor
  built from that array and the new configuration satisfies the three-way equality again.
\<close>

theorem Tensor_order_invariant:
  "(Tensor_init a cfg = Inr t0 \<longrightarrow> order t0 = length (config t0)) \<and>
   (order t = length (config t) \<and> length (config t) = rank (arr t) \<and>
    rank (covariant_form metric) = 2 \<and> rank (contravariant_form metric) = 2 \<and>
    change_config simplify t metric newconfig = Inr a' \<longrightarrow>
      (\<exists>t'. Tensor_init (SympyArray a') newconfig = Inr t' \<and> arr t' = a' \<and>
            order t' = length (config t') \<and> length (config t') = rank (arr t')))"
proof (intro conjI impI)
  assume "Tensor_init a cfg = Inr t0"
  then show "order t0 = length (config t0)" by (auto dest: Tensor_init_Inr)
next
  assume h: "order t = length (config t) \<and> length (config t) = rank (arr t) \<and>
    rank (covariant_form metric) = 2 \<and> rank (contravariant_form metric) = 2 \<and>
    change_config simplify t metric newconfig = Inr a'"
  then obtain nc where "rank a' = rank (arr t)" "newconfig = PStr nc"
    "config_checker_loop nc" "length nc = length (config t)"
    using change_config_rank [of simplify t metric newconfig a'] by auto
  with h show "\<exists>t'. Tensor_init (SympyArray a') newconfig = Inr t' \<and> arr t' = a' \<and>
            order t' = length (config t') \<and> length (config t') = rank (arr t')"
    by (simp add: Tensor_init_def)
qed

theorem Tensor_order_invariant_witness:
  "Tensor_init (SympyArray (NDimArray [2, 2] [1, 2, 3, 4 :: int])) (PStr ''ll'') =
     Inr \<lparr>arr = NDimArray [2, 2] [1, 2, 3, 4], config = ''ll'', order = 2\<rparr> \<and>
   rank (NDimArray [2, 2] [1, 2, 3, 4 :: int]) = 2 \<and>
   change_config id \<lparr>arr = NDimArray [2, 2] [1, 2, 3, 4 :: int], config = ''ll'', order = 2\<rparr>
     \<lparr>covariant_form = NDimArray [2, 2] [1, 0, 0, 2],
      contravariant_form = NDimArray [2, 2] [5, 0, 0, 7]\<rparr>
     (PStr ''ul'') = Inr (NDimArray [2, 2] [5, 10, 21, 28]) \<and>
   Tensor_init (SympyArray (NDimArray [2, 2] [5, 10, 21, 28 :: int])) (PStr ''ul'') =
     Inr \<lparr>arr = NDimArray [2, 2] [5, 10, 21, 28], config = ''ul'', order = 2\<rparr> \<and>
   rank (NDimArray [2, 2] [5, 10, 21, 28 :: int]) = 2"
proof -
  have c: "change_config id
     \<lparr>arr = NDimArray [2, 2] [1, 2, 3, 4 :: int], config = ''ll'', order = 2\<rparr>
     \<lparr>covariant_form = NDimArray [2, 2] [1, 0, 0, 2],
      contravariant_form = NDimArray [2, 2] [5, 0, 0, 7]\<rparr>
     (PStr ''ul'') = Inr (NDimArray [2, 2] [5, 10, 21, 28])"
    by code_simp
  show ?thesis
    using c Tensor_order_invariant [of "SympyArray (NDimArray [2, 2] [1, 2, 3, 4 :: int])"
        "PStr ''ll''" "\<lparr>arr = NDimArray [2, 2] [1, 2, 3, 4], config = ''ll'', order = 2\<rparr>"
        "\<lparr>arr = NDimArray [2, 2] [1, 2, 3, 4 :: int], config = ''ll'', order = 2\<rparr>"
        "\<lparr>covariant_form = NDimArray [2, 2] [1, 0, 0, 2],
          contravariant_form = NDimArray [2, 2] [5, 0, 0, 7]\<rparr>"
        id "PStr ''ul''" "NDimArray [2, 2] [5, 10, 21, 28]"]
    by (simp add: Tensor_init_def rank_def)
qed

text \<open>
  Claim C5 as stated includes the rank of the array: the constructor accepts a rank-1
  array with the two-letter configuration \<open>ll\<close>.
\<close>

theorem Tensor_init_rank_unchecked:
  "Tensor_init (Raw (Nested [Scalar (1::int), Scalar 2, Scalar 3])) (PStr ''ll'') =
     Inr \<lparr>arr = NDimArray [3] [1, 2, 3], config = ''ll'', order = 2\<rparr> \<and>
   rank (NDimArray [3] [1, 2, 3 :: int]) = 1"
  by (simp add: Tensor_init_def sympy_Array_def rank_def)

section \<open>Variables and functions of a BaseRelativityTensor\<close>

lemma union_eq_Nil: "List.union xs ys = [] \<longleftrightarrow> xs = [] \<and> ys = []"
  by (metis set_union set_empty Un_empty)

lemma sort_key_eq_Nil: "sort_key f xs = [] \<longleftrightarrow> xs = []"
  by (metis length_sort length_0_conv)

text \<open>
  Claim C10: an empty list, tuple or set given for \<^verbatim>\<open>variables\<close> (for \<^verbatim>\<open>functions\<close>)
  constructs the same object as the default argument, the empty list; the stored
  variables are then the free symbols of the array that are not coordinate symbols, sorted
  by name (the stored functions the union of the two scans). So whatever is passed, the
  stored variables are not empty when the array has a free symbol that is no coordinate
  symbol, and the stored functions are not empty when a scan finds a function.
\<close>

theorem BaseRelativityTensor_init_empty:
  "(items variables_arg = [] \<and> is_list_tuple_or_set variables_arg \<longrightarrow>
      BaseRelativityTensor_init fs au uf a syms_arg cfg pm variables_arg functions_arg nm =
      BaseRelativityTensor_init fs au uf a syms_arg cfg pm (CList []) functions_arg nm) \<and>
   (items functions_arg = [] \<and> is_list_tuple_or_set functions_arg \<longrightarrow>
      BaseRelativityTensor_init fs au uf a syms_arg cfg pm variables_arg functions_arg nm =
      BaseRelativityTensor_init fs au uf a syms_arg cfg pm variables_arg (CList []) nm) \<and>
   (BaseRelativityTensor_init fs au uf a syms_arg cfg pm variables_arg functions_arg nm = Inr t
    \<longrightarrow>
      (items variables_arg = [] \<longrightarrow>
         variables t = sort_key symbol_name (filter (\<lambda>v. v \<notin> set (syms t)) (fs (arr t)))) \<and>
      (items functions_arg = [] \<longrightarrow>
         functions t = List.union (au (arr t)) (uf (arr t))) \<and>
      ((\<exists>v \<in> set (fs (arr t)). v \<notin> set (syms t)) \<longrightarrow> variables t \<noteq> []) \<and>
      (au (arr t) \<noteq> [] \<or> uf (arr t) \<noteq> [] \<longrightarrow> functions t \<noteq> []))"
  by (cases variables_arg; cases functions_arg)
    (auto simp: BaseRelativityTensor_init_def Tensor.defs union_eq_Nil sort_key_eq_Nil
      filter_empty_conv split: sum.splits if_splits)

theorem BaseRelativityTensor_init_empty_witness:
  "items (CTuple ([] :: symbol list)) = [] \<and> is_list_tuple_or_set (CTuple ([] :: symbol list)) \<and>
   items (CSet ([] :: string list)) = [] \<and> is_list_tuple_or_set (CSet ([] :: string list)) \<and>
   BaseRelativityTensor_init (\<lambda>_. [Symbol ''x'', Symbol ''t'', Symbol ''a''])
       (\<lambda>_. [''f'']) (\<lambda>_. [])
       (SympyArray (NDimArray [2] [1, 2 :: int])) (CList [Symbol ''t'']) (PStr ''l'') None
       (CTuple []) (CSet []) None =
     BaseRelativityTensor_init (\<lambda>_. [Symbol ''x'', Symbol ''t'', Symbol ''a''])
       (\<lambda>_. [''f'']) (\<lambda>_. [])
       (SympyArray (NDimArray [2] [1, 2 :: int])) (CList [Symbol ''t'']) (PStr ''l'') None
       (CList []) (CList []) None \<and>
   BaseRelativityTensor_init (\<lambda>_. [Symbol ''x'', Symbol ''t'', Symbol ''a''])
       (\<lambda>_. [''f'']) (\<lambda>_. [])
       (SympyArray (NDimArray [2] [1, 2 :: int])) (CList [Symbol ''t'']) (PStr ''l'') None
       (CTuple []) (CSet []) None =
     Inr \<lparr>arr = NDimArray [2] [1, 2], config = ''l'', order = 1, parent_metric = None,
          name = None, syms = [Symbol ''t''], dims = 1,
          variables = [Symbol ''a'', Symbol ''x''], functions = [''f'']\<rparr>"
proof -
  have e: "BaseRelativityTensor_init (\<lambda>_. [Symbol ''x'', Symbol ''t'', Symbol ''a''])
       (\<lambda>_. [''f'']) (\<lambda>_. [])
       (SympyArray (NDimArray [2] [1, 2 :: int])) (CList [Symbol ''t'']) (PStr ''l'') None
       (CTuple []) (CSet []) None =
     Inr \<lparr>arr = NDimArray [2] [1, 2], config = ''l'', order = 1, parent_metric = None,
          name = None, syms = [Symbol ''t''], dims = 1,
          variables = [Symbol ''a'', Symbol ''x''], functions = [''f'']\<rparr>"
    by code_simp
  show ?thesis
    using e
      BaseRelativityTensor_init_empty [of "CTuple []" "\<lambda>_. [Symbol ''x'', Symbol ''t'', Symbol ''a'']"
        "\<lambda>_. [''f'']" "\<lambda>_. []" "SympyArray (NDimArray [2] [1, 2 :: int])" "CList [Symbol ''t'']"
        "PStr ''l''" None "CSet []" None]
      BaseRelativityTensor_init_empty [of "CList []" "\<lambda>_. [Symbol ''x'', Symbol ''t'', Symbol ''a'']"
        "\<lambda>_. [''f'']" "\<lambda>_. []" "SympyArray (NDimArray [2] [1, 2 :: int])" "CList [Symbol ''t'']"
        "PStr ''l''" None "CSet []" None]
    by simp
qed

section \<open>Inserting and deleting positions\<close>

lemma insert_at_0 [simp]: "insert_at 0 x xs = x # xs"
  by (simp add: insert_at_def)

lemma insert_at_Suc [simp]: "insert_at (Suc j) x (y # ys) = y # insert_at j x ys"
  by (simp add: insert_at_def)

lemma delete_at_0 [simp]: "delete_at 0 (y # ys) = ys"
  by (simp add: delete_at_def)

lemma delete_at_Suc [simp]: "delete_at (Suc j) (y # ys) = y # delete_at j ys"
  by (simp add: delete_at_def)

lemma insert_delete_at: "i < length xs \<Longrightarrow> insert_at i x (delete_at i xs) = xs[i := x]"
  by (simp add: insert_at_def delete_at_def upd_conv_take_nth_drop min_def)

lemma insert_delete_at_same: "i < length xs \<Longrightarrow> insert_at i (xs ! i) (delete_at i xs) = xs"
  by (simp add: insert_delete_at)

lemma nth_delete_at:
  "Suc m < length xs \<Longrightarrow> delete_at i xs ! m = (if m < i then xs ! m else xs ! Suc m)"
  by (auto simp: delete_at_def nth_append min_def)

lemma list_all2_delete_at:
  "list_all2 P xs ys \<Longrightarrow> list_all2 P (delete_at i xs) (delete_at i ys)"
  unfolding delete_at_def
  by (intro list_all2_appendI list_all2_takeI list_all2_dropI)

lemma list_all2_update_lt:
  "list_all2 (<) idx sh \<Longrightarrow> i < length sh \<Longrightarrow> k < sh ! i \<Longrightarrow> list_all2 (<) (idx[i := k]) sh"
  using list_all2_update_cong [of "(<)" idx sh k "sh ! i" i] by simp

section \<open>One step of the engine, entry by entry\<close>

lemma shape_tensorproduct: "shape (tensorproduct a b) = shape a @ shape b"
  by (simp add: tensorproduct_def)

lemma get_tensorproduct:
  "shape a = [d1, d2] \<Longrightarrow> r < d1 \<Longrightarrow> c < d2 \<Longrightarrow> list_all2 (<) idx (shape b) \<Longrightarrow>
   get (tensorproduct a b) (r # c # idx) = get a [r, c] * get b idx"
  by (simp add: tensorproduct_def get_tabulate rank_def)

lemma step_entrywise:
  assumes met: "shape met = [d, d]" and i: "i < rank t" and di: "shape t ! i = d"
  shows "move_axis_spec i (simplify_array s (contract_spec 1 (2 + i) (tensorproduct met t))) =
         raise_lower_spec s met i t"
proof -
  let ?st = "shape t"
  let ?P = "tensorproduct met t"
  have il: "i < length ?st" using i by (simp add: rank_def)
  have shP: "shape ?P = d # d # ?st" by (simp add: shape_tensorproduct met)
  have shC: "delete_at 1 (delete_at (2 + i) (shape ?P)) = d # delete_at i ?st"
    by (simp add: shP)
  have sh: "insert_at i d (delete_at i ?st) = ?st"
    using insert_delete_at_same [OF il] di by simp
  have body: "get (tabulate (d # delete_at i ?st)
          (\<lambda>rest. s (sum_list (map (\<lambda>k. get ?P (insert_at (2 + i) k (insert_at 1 k rest)))
             [0..<d]))))
        (idx ! i # delete_at i idx) =
      s (sum_list (map (\<lambda>k. get met [idx ! i, k] * get t (idx[i := k])) [0..<d]))"
    if v: "list_all2 (<) idx ?st" for idx
  proof -
    have len: "length idx = length ?st" using v by (rule list_all2_lengthD)
    have lt: "idx ! i < d" using v il di by (auto simp: list_all2_conv_all_nth)
    have v': "list_all2 (<) (idx ! i # delete_at i idx) (d # delete_at i ?st)"
      using v lt by (simp add: list_all2_delete_at)
    have k: "get ?P (idx ! i # k # insert_at i k (delete_at i idx)) =
        get met [idx ! i, k] * get t (idx[i := k])" if "k < d" for k
    proof -
      have "insert_at i k (delete_at i idx) = idx[i := k]"
        using il len by (simp add: insert_delete_at)
      moreover have "list_all2 (<) (idx[i := k]) ?st"
        using v il di that by (simp add: list_all2_update_lt)
      ultimately show ?thesis
        using lt that by (simp add: get_tensorproduct [OF met])
    qed
    have "sum_list (map (\<lambda>k. get ?P (insert_at (2 + i) k (insert_at 1 k (idx ! i # delete_at i idx)))) [0..<d]) =
        sum_list (map (\<lambda>k. get met [idx ! i, k] * get t (idx[i := k])) [0..<d])"
      by (rule arg_cong [where f = sum_list], rule map_cong) (simp_all add: k)
    then show ?thesis
      by (simp add: get_tabulate [OF v'])
  qed
  have "move_axis_spec i (simplify_array s (contract_spec 1 (2 + i) ?P)) =
      tabulate ?st (\<lambda>idx. get (tabulate (d # delete_at i ?st)
          (\<lambda>rest. s (sum_list (map (\<lambda>k. get ?P (insert_at (2 + i) k (insert_at 1 k rest)))
             [0..<d])))) (idx ! i # delete_at i idx))"
    by (simp add: move_axis_spec_def contract_spec_def simplify_array_tabulate shC shP sh)
  also have "\<dots> = raise_lower_spec s met i t"
    unfolding raise_lower_spec_def di
    by (rule tabulate_cong) (rule body)
  finally show ?thesis .
qed
section \<open>The axis permutation of one step\<close>

lemma delete_at_upt: "i < n \<Longrightarrow> delete_at i [0..<n] = [0..<i] @ [Suc i..<n]"
  by (simp add: delete_at_def take_upt drop_upt)

lemma upt_split3: "i < n \<Longrightarrow> [0..<n] = [0..<i] @ i # [Suc i..<n]"
  using upt_add_eq_append [of 0 i "n - i"] by (simp add: upt_conv_Cons)

lemma upt_split_Suc: "i < n \<Longrightarrow> [0..<n] = 0 # [Suc 0..<Suc i] @ [Suc i..<n]"
  using upt_add_eq_append [of "Suc 0" "Suc i" "n - Suc i"] by (simp add: upt_conv_Cons)

lemma insort_key_append:
  "\<forall>a \<in> set as. f a < f x \<Longrightarrow> insort_key f x (as @ bs) = as @ insort_key f x bs"
  by (induction as) auto

lemma fold_insert_at:
  "map fst ps = [length acc..<length acc + length ps] \<Longrightarrow>
   fold (\<lambda>(dest, src) order. insert_at dest src order) ps acc = acc @ map snd ps"
proof (induction ps arbitrary: acc)
  case Nil
  then show ?case by simp
next
  case (Cons p ps)
  obtain dest src where p: "p = (dest, src)" by (cases p)
  have "[length acc..<length acc + length (p # ps)] =
      length acc # [Suc (length acc)..<Suc (length acc) + length ps]"
    by (simp add: upt_conv_Cons del: upt_Suc)
  with Cons.prems have d: "dest = length acc" and
    r: "map fst ps = [Suc (length acc)..<Suc (length acc) + length ps]"
    by (simp_all add: p del: upt_Suc)
  have "fold (\<lambda>(dest, src) order. insert_at dest src order) ps (acc @ [src]) =
      (acc @ [src]) @ map snd ps"
    by (rule Cons.IH) (simp add: r)
  then show ?case by (simp add: p d insert_at_def)
qed

lemma moveaxis_order:
  assumes "i < n"
  shows "fold (\<lambda>(dest, src) order. insert_at dest src order)
           (sort_key fst (zip (insert_at 0 i (delete_at i [0..<n])) [0..<n]))
           (filter (\<lambda>m. m \<notin> set [0..<n]) [0..<n]) = moved_order i n"
proof -
  let ?A = "zip [0..<i] [Suc 0..<Suc i]"
  let ?B = "zip [Suc i..<n] [Suc i..<n]"
  have fA: "map fst ?A = [0..<i]" and sA: "map snd ?A = [Suc 0..<Suc i]"
    by simp_all
  have fB: "map fst ?B = [Suc i..<n]" and sB: "map snd ?B = [Suc i..<n]"
    by simp_all
  have d: "insert_at 0 i (delete_at i [0..<n]) = i # [0..<i] @ [Suc i..<n]"
    using assms by (simp add: delete_at_upt)
  have z: "zip (insert_at 0 i (delete_at i [0..<n])) [0..<n] = (i, 0) # ?A @ ?B"
    unfolding d by (subst upt_split_Suc [OF assms]) (simp del: upt_Suc)
  have "sort_key fst (?A @ ?B) = ?A @ ?B"
    by (rule sort_key_id_if_sorted) (simp add: fA fB sorted_append del: map_fst_zip upt_Suc)
  then have "sort_key fst ((i, 0) # ?A @ ?B) = insort_key fst (i, 0) (?A @ ?B)"
    by (simp del: upt_Suc)
  also have "\<dots> = ?A @ insort_key fst (i, 0) ?B"
    by (rule insort_key_append) (auto dest: set_zip_leftD)
  also have "insort_key fst (i, 0) ?B = (i, 0) # ?B"
    by (rule insort_is_Cons) (auto dest: set_zip_leftD)
  finally have s: "sort_key fst (zip (insert_at 0 i (delete_at i [0..<n])) [0..<n]) =
      ?A @ (i, 0) # ?B"
    by (simp only: z)
  have e: "filter (\<lambda>m. m \<notin> set [0..<n]) [0..<n] = []"
    by (simp add: filter_empty_conv)
  have f: "fold (\<lambda>(dest, src) order. insert_at dest src order) (?A @ (i, 0) # ?B) [] =
      [] @ map snd (?A @ (i, 0) # ?B)"
    using upt_split3 [OF assms] assms
    by (intro fold_insert_at) (simp add: fA fB del: map_fst_zip upt_Suc)
  have m: "[] @ map snd (?A @ (i, 0) # ?B) = moved_order i n"
    by (simp add: moved_order_def sA sB del: map_snd_zip upt_Suc)
  show ?thesis
    by (simp only: s e f m)
qed
lemma length_moved_order: "i < n \<Longrightarrow> length (moved_order i n) = n"
  by (simp add: moved_order_def del: upt_Suc)

lemma nth_moved_order:
  "i < n \<Longrightarrow> j < n \<Longrightarrow>
   moved_order i n ! j = (if j < i then Suc j else if j = i then 0 else j)"
  by (auto simp: moved_order_def nth_append nth_Cons' simp del: upt_Suc)

lemma distinct_moved_order: "distinct (moved_order i n)"
  by (auto simp: moved_order_def simp del: upt_Suc)

lemma moved_order_lt: "i < n \<Longrightarrow> list_all (\<lambda>ax. ax < n) (moved_order i n)"
  by (auto simp: moved_order_def list_all_iff simp del: upt_Suc)

lemma index_of_nth: "distinct xs \<Longrightarrow> j < length xs \<Longrightarrow> index_of xs (xs ! j) = j"
proof (induction xs arbitrary: j)
  case Nil
  then show ?case by simp
next
  case (Cons x xs)
  then show ?case by (cases j) auto
qed

lemma index_of_moved_order:
  assumes "i < n" "m < n"
  shows "index_of (moved_order i n) m = (if m = 0 then i else if m \<le> i then m - 1 else m)"
proof -
  let ?g = "if m = 0 then i else if m \<le> i then m - 1 else m"
  have g: "?g < n" using assms by auto
  have "moved_order i n ! ?g = m"
    using assms by (auto simp: nth_moved_order [OF assms(1) g])
  then have "index_of (moved_order i n) m = index_of (moved_order i n) (moved_order i n ! ?g)"
    by simp
  also have "\<dots> = ?g"
    using g by (intro index_of_nth distinct_moved_order) (simp add: length_moved_order assms)
  finally show ?thesis .
qed

lemma nth_insert_at:
  "i \<le> length xs \<Longrightarrow>
   insert_at i x xs ! j = (if j < i then xs ! j else if j = i then x else xs ! (j - 1))"
  by (auto simp: insert_at_def nth_append nth_Cons' min_def)

lemma length_insert_at: "length (insert_at i x xs) = Suc (length xs)"
  by (simp add: insert_at_def min_def)

lemma moved_index:
  assumes "i < n" "length idx = n"
  shows "map (\<lambda>m. idx ! index_of (moved_order i n) m) [0..<n] = idx ! i # delete_at i idx"
proof (rule nth_equalityI)
  show "length (map (\<lambda>m. idx ! index_of (moved_order i n) m) [0..<n]) =
      length (idx ! i # delete_at i idx)"
    using assms by (simp add: length_delete_at)
next
  fix m
  assume "m < length (map (\<lambda>m. idx ! index_of (moved_order i n) m) [0..<n])"
  then have m: "m < n" by simp
  show "map (\<lambda>m. idx ! index_of (moved_order i n) m) [0..<n] ! m =
      (idx ! i # delete_at i idx) ! m"
  proof (cases m)
    case 0
    with m assms show ?thesis by (simp add: index_of_moved_order del: upt_Suc)
  next
    case (Suc m')
    with m assms show ?thesis
      by (auto simp: index_of_moved_order nth_delete_at simp del: upt_Suc)
  qed
qed

lemma moved_shape:
  assumes "i < n" "length sc = n"
  shows "map (\<lambda>ax. sc ! ax) (moved_order i n) = insert_at i (hd sc) (tl sc)"
proof (rule nth_equalityI)
  show "length (map (\<lambda>ax. sc ! ax) (moved_order i n)) = length (insert_at i (hd sc) (tl sc))"
    using assms by (cases sc) (simp_all add: length_moved_order length_insert_at)
next
  fix j
  assume "j < length (map (\<lambda>ax. sc ! ax) (moved_order i n))"
  then have j: "j < n" using assms by (simp add: length_moved_order)
  from assms obtain x xs where sc: "sc = x # xs" by (cases sc) auto
  have "i \<le> length (tl sc)" using assms by (simp add: sc)
  then show "map (\<lambda>ax. sc ! ax) (moved_order i n) ! j = insert_at i (hd sc) (tl sc) ! j"
    using j assms
    by (auto simp: nth_insert_at nth_moved_order length_moved_order sc)
qed

lemma moveaxis_move_axis_spec:
  assumes "i < rank c"
  shows "moveaxis c [0..<rank c] (insert_at 0 i (delete_at i [0..<rank c])) =
         Inr (move_axis_spec i c)"
proof -
  let ?n = "rank c"
  have d: "insert_at 0 i (delete_at i [0..<?n]) = i # [0..<i] @ [Suc i..<?n]"
    using assms by (simp add: delete_at_upt)
  have checks: "list_all (\<lambda>ax. ax < ?n) [0..<?n]" "distinct [0..<?n]"
    "list_all (\<lambda>ax. ax < ?n) (insert_at 0 i (delete_at i [0..<?n]))"
    "distinct (insert_at 0 i (delete_at i [0..<?n]))"
    "length [0..<?n] = length (insert_at 0 i (delete_at i [0..<?n]))"
    using assms unfolding d by (auto simp: list_all_iff simp del: upt_Suc)
  have "moveaxis c [0..<?n] (insert_at 0 i (delete_at i [0..<?n])) =
      transpose_axes c (moved_order i ?n)"
    unfolding moveaxis_def using checks
    by (simp only: moveaxis_order [OF assms] if_False if_True not_True_eq_False not_False_eq_True simp_thms)
  also have "\<dots> = Inr (tabulate (map (\<lambda>ax. shape c ! ax) (moved_order i ?n))
      (\<lambda>idx. get c (map (\<lambda>m. idx ! index_of (moved_order i ?n) m) [0..<?n])))"
    using assms
    by (simp add: transpose_axes_def length_moved_order distinct_moved_order moved_order_lt)
  also have "\<dots> = Inr (move_axis_spec i c)"
  proof -
    have sh: "map (\<lambda>ax. shape c ! ax) (moved_order i ?n) = insert_at i (hd (shape c)) (tl (shape c))"
      using assms by (intro moved_shape) (simp_all add: rank_def)
    have "tabulate (insert_at i (hd (shape c)) (tl (shape c)))
        (\<lambda>idx. get c (map (\<lambda>m. idx ! index_of (moved_order i ?n) m) [0..<?n])) =
      tabulate (insert_at i (hd (shape c)) (tl (shape c)))
        (\<lambda>idx. get c (idx ! i # delete_at i idx))"
    proof (rule tabulate_cong)
      fix idx :: "nat list"
      assume "list_all2 (<) idx (insert_at i (hd (shape c)) (tl (shape c)))"
      then have "length idx = length (insert_at i (hd (shape c)) (tl (shape c)))"
        by (rule list_all2_lengthD)
      also have "\<dots> = ?n"
        using sh length_moved_order [OF assms] by (metis length_map)
      finally have "length idx = ?n" .
      then show "get c (map (\<lambda>m. idx ! index_of (moved_order i ?n) m) [0..<?n]) =
          get c (idx ! i # delete_at i idx)"
        using assms by (simp only: moved_index)
    qed
    then show ?thesis by (simp add: move_axis_spec_def sh)
  qed
  finally show ?thesis .
qed

section \<open>The engine follows the specification's steps\<close>

lemma shape_raise_lower_spec [simp]: "shape (raise_lower_spec s met i t) = shape t"
  by (simp add: raise_lower_spec_def)

lemma tensorcontraction_product:
  assumes "shape met = [d, d]" "i < rank t" "shape t ! i = d"
  shows "tensorcontraction (tensorproduct met t) (1, 2 + i) =
         Inr (contract_spec 1 (2 + i) (tensorproduct met t))"
  using assms
  by (simp add: tensorcontraction_def contract_spec_def rank_def shape_tensorproduct)

lemma shape_contract_product:
  assumes "shape met = [d, d]" "i < rank t"
  shows "shape (contract_spec 1 (2 + i) (tensorproduct met t)) = d # delete_at i (shape t)"
  using assms by (simp add: contract_spec_def shape_tensorproduct)

lemma metric_form_lookup:
  "action = 1 \<or> action = - 1 \<Longrightarrow>
   [- 1 \<mapsto> covariant_form metric, 1 \<mapsto> contravariant_form metric] action =
     Some (metric_form_spec metric action)"
  by (auto simp: metric_form_spec_def)

lemma chain_step:
  assumes met: "shape met = [d, d]" and i: "i < rank t" and di: "shape t ! i = d"
  shows "(case tensorcontraction (tensorproduct met t) (1, 2 + i) of
            Inl e \<Rightarrow> Inl e
          | Inr c \<Rightarrow>
              let t' = simplify_array s c; tmp = t';
                  source = [0..<length (shape t')]; dest = [0..<length (shape t')]
              in (case list_pop dest i of
                    Inl e \<Rightarrow> Inl e
                  | Inr dest' \<Rightarrow>
                      (case moveaxis tmp source (insert_at 0 i dest') of
                         Inl e \<Rightarrow> Inl e
                       | Inr tmp' \<Rightarrow> k tmp'))) =
         k (move_axis_spec i (simplify_array s (contract_spec 1 (2 + i) (tensorproduct met t))))"
proof -
  let ?c = "contract_spec 1 (2 + i) (tensorproduct met t)"
  let ?t' = "simplify_array s ?c"
  have "shape ?t' = d # delete_at i (shape t)"
    by (simp only: shape_simplify_array shape_contract_product [OF met i])
  then have r: "rank ?t' = rank t"
    using i by (simp add: rank_def length_delete_at)
  then have l: "length (shape ?t') = rank t" by (simp add: rank_def)
  have p: "list_pop [0..<rank t] i = Inr (delete_at i [0..<rank t])"
    using i by (simp add: list_pop_def)
  have m: "moveaxis ?t' [0..<rank t] (insert_at 0 i (delete_at i [0..<rank t])) =
      Inr (move_axis_spec i ?t')"
    using moveaxis_move_axis_spec [of i ?t'] i by (simp only: r)
  show ?thesis
    by (simp only: tensorcontraction_product [OF met i di] sum.case Let_def l p m)
qed

lemma chain_config_change_transform_spec:
  assumes "shape (covariant_form metric) = [d, d]" "shape (contravariant_form metric) = [d, d]"
    and "set difflist \<subseteq> {0, 1, - 1}"
    and "\<forall>j < length difflist. difflist ! j \<noteq> 0 \<longrightarrow> i + j < rank t \<and> shape t ! (i + j) = d"
  shows "chain_config_change s [- 1 \<mapsto> covariant_form metric, 1 \<mapsto> contravariant_form metric]
           i difflist t = Inr (transform_spec s metric i difflist t) \<and>
         shape (transform_spec s metric i difflist t) = shape t"
  using assms(3,4)
proof (induction difflist arbitrary: i t)
  case Nil
  then show ?case by simp
next
  case (Cons action difflist)
  have rest: "\<forall>j < length difflist. difflist ! j \<noteq> 0 \<longrightarrow>
      Suc i + j < rank t \<and> shape t ! (Suc i + j) = d"
    using Cons.prems(2) by fastforce
  show ?case
  proof (cases "action = 0")
    case True
    with Cons.IH [of "Suc i" t] Cons.prems(1) rest show ?thesis by simp
  next
    case False
    let ?met = "metric_form_spec metric action"
    let ?t' = "step_spec s metric action i t"
    from False Cons.prems(1) have a: "action = 1 \<or> action = - 1" by auto
    have met: "shape ?met = [d, d]"
      by (simp add: metric_form_spec_def assms(1,2))
    from Cons.prems(2) False have i: "i < rank t" and di: "shape t ! i = d"
      by force+
    have sh: "shape ?t' = shape t"
      by (simp only: step_spec_def step_entrywise [OF met i di] shape_raise_lower_spec)
    have rest': "\<forall>j < length difflist. difflist ! j \<noteq> 0 \<longrightarrow>
        Suc i + j < rank ?t' \<and> shape ?t' ! (Suc i + j) = d"
      using rest by (simp add: sh rank_def)
    have IH: "chain_config_change s
          [- 1 \<mapsto> covariant_form metric, 1 \<mapsto> contravariant_form metric] (Suc i) difflist ?t' =
        Inr (transform_spec s metric (Suc i) difflist ?t') \<and>
        shape (transform_spec s metric (Suc i) difflist ?t') = shape ?t'"
      using Cons.prems(1) rest' by (intro Cons.IH) auto
    have ts: "transform_spec s metric i (action # difflist) t =
        transform_spec s metric (Suc i) difflist ?t'"
      using False by simp
    have "chain_config_change s
          [- 1 \<mapsto> covariant_form metric, 1 \<mapsto> contravariant_form metric] i (action # difflist) t =
        chain_config_change s
          [- 1 \<mapsto> covariant_form metric, 1 \<mapsto> contravariant_form metric] (Suc i) difflist ?t'"
      using False
      by (simp only: chain_config_change.simps if_False metric_form_lookup [OF a] option.case
          chain_step [OF met i di] step_spec_def)
    with IH show ?thesis by (simp only: ts sh)
  qed
qed

lemma step_spec_raise_lower:
  assumes "shape (covariant_form metric) = [d, d]" "shape (contravariant_form metric) = [d, d]"
    and "i < rank t" "shape t ! i = d"
  shows "step_spec s metric a i t = raise_lower_spec s (metric_form_spec metric a) i t"
proof -
  have "shape (metric_form_spec metric a) = [d, d]"
    by (simp add: metric_form_spec_def assms(1,2))
  from step_entrywise [OF this assms(3,4)] show ?thesis
    by (simp only: step_spec_def)
qed

lemma set_difference_list: "set (difference_list newconfig oldconfig) \<subseteq> {0, 1, - 1}"
  by (induction newconfig oldconfig rule: difference_list.induct) auto

lemma change_config_transform_spec:
  assumes "config_checker_loop newconfig" "length newconfig = length (config T)"
    and "shape (covariant_form metric) = [d, d]" "shape (contravariant_form metric) = [d, d]"
    and "\<forall>i < length newconfig. newconfig ! i \<noteq> config T ! i \<longrightarrow>
           i < rank (arr T) \<and> shape (arr T) ! i = d"
  shows "change_config s T metric (PStr newconfig) =
           Inr (transform_spec s metric 0 (difference_list newconfig (config T)) (arr T)) \<and>
         shape (transform_spec s metric 0 (difference_list newconfig (config T)) (arr T)) =
           shape (arr T)"
proof -
  let ?dl = "difference_list newconfig (config T)"
  have "\<forall>j < length ?dl. ?dl ! j \<noteq> 0 \<longrightarrow> 0 + j < rank (arr T) \<and> shape (arr T) ! (0 + j) = d"
    using assms(2,5) by (auto simp: difference_list_length difference_list_nth)
  from chain_config_change_transform_spec [OF assms(3,4) set_difference_list this, of s]
  show ?thesis
    using assms(1,2) by (simp add: change_config_def Tensor_tensor_def)
qed

lemma tensorcontraction_product_Inr:
  assumes "shape met = [d, d]" "tensorcontraction (tensorproduct met t) (1, 2 + i) = Inr c"
  shows "i < rank t \<and> shape t ! i = d"
  using assms
  by (auto simp: tensorcontraction_def rank_def shape_tensorproduct split: if_splits)

lemma chain_config_change_Inr:
  assumes "shape (covariant_form metric) = [d, d]" "shape (contravariant_form metric) = [d, d]"
    and "chain_config_change s [- 1 \<mapsto> covariant_form metric, 1 \<mapsto> contravariant_form metric]
           i difflist t = Inr r"
  shows "r = transform_spec s metric i difflist t \<and> shape r = shape t"
  using assms(3)
proof (induction difflist arbitrary: i t)
  case Nil
  then show ?case by simp
next
  case (Cons action difflist)
  show ?case
  proof (cases "action = 0")
    case True
    with Cons.IH [of "Suc i" t] Cons.prems show ?thesis by auto
  next
    case False
    let ?md = "[- 1 \<mapsto> covariant_form metric, 1 \<mapsto> contravariant_form metric]"
    let ?met = "metric_form_spec metric action"
    let ?t' = "step_spec s metric action i t"
    from Cons.prems False have a: "action = 1 \<or> action = - 1"
      by (auto split: if_splits)
    have met: "shape ?met = [d, d]"
      by (simp add: metric_form_spec_def assms(1,2))
    from Cons.prems False obtain c where
      "tensorcontraction (tensorproduct ?met t) (1, 2 + i) = Inr c"
      by (simp only: chain_config_change.simps if_False metric_form_lookup [OF a] option.case)
        (auto split: sum.splits)
    from tensorcontraction_product_Inr [OF met this]
    have i: "i < rank t" and di: "shape t ! i = d" by simp_all
    have sh: "shape ?t' = shape t"
      by (simp only: step_spec_def step_entrywise [OF met i di] shape_raise_lower_spec)
    have ts: "transform_spec s metric i (action # difflist) t =
        transform_spec s metric (Suc i) difflist ?t'"
      using False by simp
    have "chain_config_change s ?md i (action # difflist) t =
        chain_config_change s ?md (Suc i) difflist ?t'"
      using False
      by (simp only: chain_config_change.simps if_False metric_form_lookup [OF a] option.case
          chain_step [OF met i di] step_spec_def)
    with Cons.prems have "chain_config_change s ?md (Suc i) difflist ?t' = Inr r"
      by (simp only:)
    from Cons.IH [OF this]
    have "r = transform_spec s metric (Suc i) difflist ?t'" and "shape r = shape ?t'"
      by blast+
    then show ?thesis
      by (simp only: ts sh simp_thms)
  qed
qed

lemma change_config_Inr:
  assumes "shape (covariant_form metric) = [d, d]" "shape (contravariant_form metric) = [d, d]"
    and "change_config s T metric newconfig = Inr r"
  shows "\<exists>nc. newconfig = PStr nc \<and> config_checker_loop nc \<and> length nc = length (config T) \<and>
           r = transform_spec s metric 0 (difference_list nc (config T)) (arr T) \<and>
           shape r = shape (arr T)"
proof -
  from assms(3) obtain nc where
    nc: "newconfig = PStr nc" "config_checker_loop nc" "length nc = length (config T)" and
    ch: "chain_config_change s
           [- 1 \<mapsto> covariant_form metric, 1 \<mapsto> contravariant_form metric] 0
           (difference_list nc (config T)) (arr T) = Inr r"
    by (auto simp: change_config_def Let_def Tensor_tensor_def
        split: sum.splits if_splits pyval.splits)
  from chain_config_change_Inr [OF assms(1,2) ch] nc show ?thesis by auto
qed

text \<open>
  Claim C1, as the code has it, for a metric whose two forms are \<open>d \<times> d\<close> arrays. For
  a Tensor with a configuration of length \<open>n\<close> and a valid new configuration of length
  \<open>n\<close>, every position that changes being an axis of the array with extent \<open>d\<close>, the
  engine returns the array that the specification's steps produce, going through the
  action list from left to right: at a non-zero action at position \<open>i\<close> the metric form
  is the contravariant one for \<open>+1\<close> and the covariant one for \<open>-1\<close>, its product with
  the current array is contracted over the product axes \<open>(1, 2 + i)\<close>, and the axes are
  permuted so that axis 0 moves to position \<open>i\<close> and the others keep their order.
  Whenever the engine returns an array at all, it is that array, and it has the shape, and
  so the rank, of the input. Entry by entry, such a step on an axis of extent \<open>d\<close> puts
  at \<open>idx\<close> the simplified sum over \<open>k\<close> of \<open>met[idx[i], k] * t[idx with k at axis i]\<close>:
  the first metric axis is axis \<open>i\<close> of the result, the second one is summed against
  axis \<open>i\<close> of the array, and every other axis stays where it was.
\<close>

theorem change_config_engine:
  assumes "shape (covariant_form metric) = [d, d]" and "shape (contravariant_form metric) = [d, d]"
  shows "(config_checker (PStr newconfig) \<and> length newconfig = length (config T) \<and>
          (\<forall>i < length newconfig. newconfig ! i \<noteq> config T ! i \<longrightarrow>
             i < rank (arr T) \<and> shape (arr T) ! i = d) \<longrightarrow>
            change_config simplify T metric (PStr newconfig) =
              Inr (transform_spec simplify metric 0 (difference_list newconfig (config T)) (arr T))) \<and>
         (change_config simplify T metric (PStr newconfig) = Inr r \<longrightarrow>
            r = transform_spec simplify metric 0 (difference_list newconfig (config T)) (arr T) \<and>
            shape r = shape (arr T) \<and> rank r = rank (arr T)) \<and>
         (\<forall>action i t. i < rank t \<and> shape t ! i = d \<longrightarrow>
            step_spec simplify metric action i t =
              raise_lower_spec simplify (metric_form_spec metric action) i t)"
proof (intro conjI impI allI)
  assume "config_checker (PStr newconfig) \<and> length newconfig = length (config T) \<and>
          (\<forall>i < length newconfig. newconfig ! i \<noteq> config T ! i \<longrightarrow>
             i < rank (arr T) \<and> shape (arr T) ! i = d)"
  then show "change_config simplify T metric (PStr newconfig) =
      Inr (transform_spec simplify metric 0 (difference_list newconfig (config T)) (arr T))"
    using change_config_transform_spec [of newconfig T metric d simplify] assms by simp
next
  assume "change_config simplify T metric (PStr newconfig) = Inr r"
  from change_config_Inr [OF assms this]
  have r: "r = transform_spec simplify metric 0 (difference_list newconfig (config T)) (arr T)"
    and s: "shape r = shape (arr T)"
    by auto
  from r show "r = transform_spec simplify metric 0 (difference_list newconfig (config T)) (arr T)" .
  from s show "shape r = shape (arr T)" .
  from s show "rank r = rank (arr T)" by (simp add: rank_def)
next
  fix action i and t :: "'a ndarray"
  assume "i < rank t \<and> shape t ! i = d"
  then show "step_spec simplify metric action i t =
      raise_lower_spec simplify (metric_form_spec metric action) i t"
    using step_spec_raise_lower [OF assms, of i t simplify action] by simp
qed

theorem change_config_engine_witness:
  "shape (NDimArray [2, 2] [1, 0, 0, 2 :: int]) = [2, 2] \<and>
   shape (NDimArray [2, 2] [5, 1, 0, 7 :: int]) = [2, 2] \<and>
   rank (NDimArray [2, 2] [1, 2, 3, 4 :: int]) = length ''ll'' \<and>
   config_checker (PStr ''uu'') \<and>
   change_config id \<lparr>arr = NDimArray [2, 2] [1, 2, 3, 4 :: int], config = ''ll'', order = 2\<rparr>
     \<lparr>covariant_form = NDimArray [2, 2] [1, 0, 0, 2],
      contravariant_form = NDimArray [2, 2] [5, 1, 0, 7]\<rparr> (PStr ''uu'') =
     Inr (NDimArray [2, 2] [54, 98, 133, 196]) \<and>
   transform_spec id
     \<lparr>covariant_form = NDimArray [2, 2] [1, 0, 0, 2],
      contravariant_form = NDimArray [2, 2] [5, 1, 0, 7]\<rparr> 0 (difference_list ''uu'' ''ll'')
     (NDimArray [2, 2] [1, 2, 3, 4 :: int]) = NDimArray [2, 2] [54, 98, 133, 196] \<and>
   step_spec id
     \<lparr>covariant_form = NDimArray [2, 2] [1, 0, 0, 2],
      contravariant_form = NDimArray [2, 2] [5, 1, 0, 7]\<rparr> 1 0
     (NDimArray [2, 2] [1, 2, 3, 4 :: int]) =
   raise_lower_spec id (NDimArray [2, 2] [5, 1, 0, 7]) 0 (NDimArray [2, 2] [1, 2, 3, 4])"
proof -
  let ?T = "\<lparr>arr = NDimArray [2, 2] [1, 2, 3, 4 :: int], config = ''ll'', order = 2\<rparr>"
  let ?M = "\<lparr>covariant_form = NDimArray [2, 2] [1, 0, 0, 2 :: int],
             contravariant_form = NDimArray [2, 2] [5, 1, 0, 7]\<rparr>"
  have e: "transform_spec id ?M 0 (difference_list ''uu'' ''ll'')
     (NDimArray [2, 2] [1, 2, 3, 4 :: int]) = NDimArray [2, 2] [54, 98, 133, 196]"
    by code_simp
  have h: "\<forall>i < length ''uu''. ''uu'' ! i \<noteq> config ?T ! i \<longrightarrow>
      i < rank (arr ?T) \<and> shape (arr ?T) ! i = 2"
    by (simp add: less_Suc_eq rank_def)
  have m: "shape (covariant_form ?M) = [2, 2]" "shape (contravariant_form ?M) = [2, 2]"
    by simp_all
  from change_config_engine [OF m, of "''uu''" ?T id]
  have "change_config id ?T ?M (PStr ''uu'') =
      Inr (transform_spec id ?M 0 (difference_list ''uu'' (config ?T)) (arr ?T))"
    and "step_spec id ?M 1 0 (NDimArray [2, 2] [1, 2, 3, 4 :: int]) =
      raise_lower_spec id (metric_form_spec ?M 1) 0 (NDimArray [2, 2] [1, 2, 3, 4])"
    using h by (simp_all add: rank_def)
  with e show ?thesis
    by (simp add: rank_def metric_form_spec_def)
qed

text \<open>
  Claim C1 as stated covers every Tensor of rank \<open>n\<close> and every valid new configuration
  of length \<open>n\<close>: on a rank-1 Tensor with three entries and a \<open>2 \<times> 2\<close> metric the
  contraction of the first step raises, and no array is returned.
\<close>

theorem change_config_engine_extent_mismatch:
  "rank (NDimArray [3] [1, 2, 3 :: int]) = 1 \<and> length ''l'' = 1 \<and>
   config_checker (PStr ''u'') \<and> length ''u'' = 1 \<and>
   change_config id \<lparr>arr = NDimArray [3] [1, 2, 3 :: int], config = ''l'', order = 1\<rparr>
     \<lparr>covariant_form = NDimArray [2, 2] [1, 0, 0, 1],
      contravariant_form = NDimArray [2, 2] [1, 0, 0, 1]\<rparr> (PStr ''u'') =
     Inl (ValueError ''cannot contract between axes of different dimension'')"
  by (simp add: rank_def change_config_def Tensor_tensor_def tensorcontraction_def
      tensorproduct_def)

section \<open>Raising and lowering entry by entry\<close>

lemma sum_list_upt_sum: "sum_list (map f [0..<d]) = sum f {0..<d}"
  by (simp add: interv_sum_list_conv_sum_set_nat)

lemma get_raise_lower:
  assumes "list_all2 (<) idx (shape t)"
  shows "get (raise_lower_spec id met i t) idx =
         (\<Sum>k = 0..<shape t ! i. get met [idx ! i, k] * get t (idx[i := k]))"
  using assms by (simp add: raise_lower_spec_def get_tabulate sum_list_upt_sum)

lemma raise_lower_commute:
  fixes t :: "'a::comm_ring_1 ndarray"
  assumes "i \<noteq> j" "i < rank t" "j < rank t"
  shows "raise_lower_spec id M i (raise_lower_spec id N j t) =
         raise_lower_spec id N j (raise_lower_spec id M i t)"
proof -
  let ?sh = "shape t"
  have il: "i < length ?sh" and jl: "j < length ?sh"
    using assms by (simp_all add: rank_def)
  have lhs: "get (raise_lower_spec id M i (raise_lower_spec id N j t)) idx =
      (\<Sum>k = 0..<?sh ! i. \<Sum>m = 0..<?sh ! j.
         get M [idx ! i, k] * (get N [idx ! j, m] * get t (idx[i := k, j := m])))"
    if v: "list_all2 (<) idx ?sh" for idx
  proof -
    have "get (raise_lower_spec id M i (raise_lower_spec id N j t)) idx =
        (\<Sum>k = 0..<?sh ! i. get M [idx ! i, k] * get (raise_lower_spec id N j t) (idx[i := k]))"
      using v by (simp add: get_raise_lower)
    also have "\<dots> = (\<Sum>k = 0..<?sh ! i. get M [idx ! i, k] *
        (\<Sum>m = 0..<?sh ! j. get N [idx ! j, m] * get t (idx[i := k, j := m])))"
    proof (rule sum.cong [OF refl])
      fix k assume "k \<in> {0..<?sh ! i}"
      then have "list_all2 (<) (idx[i := k]) ?sh"
        using v il by (simp add: list_all2_update_lt)
      then show "get M [idx ! i, k] * get (raise_lower_spec id N j t) (idx[i := k]) =
          get M [idx ! i, k] *
          (\<Sum>m = 0..<?sh ! j. get N [idx ! j, m] * get t (idx[i := k, j := m]))"
        using assms(1) by (simp add: get_raise_lower)
    qed
    finally show ?thesis by (simp add: sum_distrib_left)
  qed
  have rhs: "get (raise_lower_spec id N j (raise_lower_spec id M i t)) idx =
      (\<Sum>m = 0..<?sh ! j. \<Sum>k = 0..<?sh ! i.
         get N [idx ! j, m] * (get M [idx ! i, k] * get t (idx[j := m, i := k])))"
    if v: "list_all2 (<) idx ?sh" for idx
  proof -
    have "get (raise_lower_spec id N j (raise_lower_spec id M i t)) idx =
        (\<Sum>m = 0..<?sh ! j. get N [idx ! j, m] * get (raise_lower_spec id M i t) (idx[j := m]))"
      using v by (simp add: get_raise_lower)
    also have "\<dots> = (\<Sum>m = 0..<?sh ! j. get N [idx ! j, m] *
        (\<Sum>k = 0..<?sh ! i. get M [idx ! i, k] * get t (idx[j := m, i := k])))"
    proof (rule sum.cong [OF refl])
      fix m assume "m \<in> {0..<?sh ! j}"
      then have "list_all2 (<) (idx[j := m]) ?sh"
        using v jl by (simp add: list_all2_update_lt)
      then show "get N [idx ! j, m] * get (raise_lower_spec id M i t) (idx[j := m]) =
          get N [idx ! j, m] *
          (\<Sum>k = 0..<?sh ! i. get M [idx ! i, k] * get t (idx[j := m, i := k]))"
        using assms(1) by (simp add: get_raise_lower)
    qed
    finally show ?thesis by (simp add: sum_distrib_left)
  qed
  have "get (raise_lower_spec id M i (raise_lower_spec id N j t)) idx =
      get (raise_lower_spec id N j (raise_lower_spec id M i t)) idx"
    if v: "list_all2 (<) idx ?sh" for idx
  proof -
    have "(\<Sum>m = 0..<?sh ! j. \<Sum>k = 0..<?sh ! i.
         get N [idx ! j, m] * (get M [idx ! i, k] * get t (idx[j := m, i := k]))) =
        (\<Sum>k = 0..<?sh ! i. \<Sum>m = 0..<?sh ! j.
         get N [idx ! j, m] * (get M [idx ! i, k] * get t (idx[j := m, i := k])))"
      by (rule sum.swap)
    also have "\<dots> = (\<Sum>k = 0..<?sh ! i. \<Sum>m = 0..<?sh ! j.
         get M [idx ! i, k] * (get N [idx ! j, m] * get t (idx[i := k, j := m])))"
      using assms(1) by (simp add: list_update_swap [of i j] mult.left_commute)
    finally show ?thesis by (simp only: lhs [OF v] rhs [OF v])
  qed
  then have "tabulate ?sh (get (raise_lower_spec id M i (raise_lower_spec id N j t))) =
      tabulate ?sh (get (raise_lower_spec id N j (raise_lower_spec id M i t)))"
    by (rule tabulate_cong)
  moreover have "wf_array (raise_lower_spec id M i (raise_lower_spec id N j t))"
    "wf_array (raise_lower_spec id N j (raise_lower_spec id M i t))"
    by (simp_all add: raise_lower_spec_def)
  ultimately show ?thesis
    using tabulate_get [of "raise_lower_spec id M i (raise_lower_spec id N j t)"]
      tabulate_get [of "raise_lower_spec id N j (raise_lower_spec id M i t)"]
    by simp
qed

lemma raise_lower_inverse:
  fixes t :: "'a::comm_ring_1 ndarray"
  assumes wf: "wf_array t" and i: "i < rank t"
    and inv: "\<And>r c. r < shape t ! i \<Longrightarrow> c < shape t ! i \<Longrightarrow>
      (\<Sum>k = 0..<shape t ! i. get M [r, k] * get N [k, c]) = (if r = c then 1 else 0)"
  shows "raise_lower_spec id M i (raise_lower_spec id N i t) = t"
proof -
  let ?sh = "shape t"
  let ?d = "?sh ! i"
  have il: "i < length ?sh" using i by (simp add: rank_def)
  have "get (raise_lower_spec id M i (raise_lower_spec id N i t)) idx = get t idx"
    if v: "list_all2 (<) idx ?sh" for idx
  proof -
    have len: "length idx = length ?sh" using v by (rule list_all2_lengthD)
    have a: "idx ! i < ?d" using v il by (simp add: list_all2_conv_all_nth)
    have "get (raise_lower_spec id M i (raise_lower_spec id N i t)) idx =
        (\<Sum>k = 0..<?d. get M [idx ! i, k] * get (raise_lower_spec id N i t) (idx[i := k]))"
      using v by (simp add: get_raise_lower)
    also have "\<dots> = (\<Sum>k = 0..<?d. get M [idx ! i, k] *
        (\<Sum>m = 0..<?d. get N [k, m] * get t (idx[i := m])))"
    proof (rule sum.cong [OF refl])
      fix k assume "k \<in> {0..<?d}"
      then have "list_all2 (<) (idx[i := k]) ?sh"
        using v il by (simp add: list_all2_update_lt)
      then show "get M [idx ! i, k] * get (raise_lower_spec id N i t) (idx[i := k]) =
          get M [idx ! i, k] * (\<Sum>m = 0..<?d. get N [k, m] * get t (idx[i := m]))"
        using il len by (simp add: get_raise_lower)
    qed
    also have "\<dots> = (\<Sum>k = 0..<?d. \<Sum>m = 0..<?d.
        get M [idx ! i, k] * get N [k, m] * get t (idx[i := m]))"
      by (simp add: sum_distrib_left mult.assoc)
    also have "\<dots> = (\<Sum>m = 0..<?d. \<Sum>k = 0..<?d.
        get M [idx ! i, k] * get N [k, m] * get t (idx[i := m]))"
      by (rule sum.swap)
    also have "\<dots> = (\<Sum>m = 0..<?d.
        (\<Sum>k = 0..<?d. get M [idx ! i, k] * get N [k, m]) * get t (idx[i := m]))"
      by (simp add: sum_distrib_right)
    also have "\<dots> = (\<Sum>m = 0..<?d. (if idx ! i = m then 1 else 0) * get t (idx[i := m]))"
      by (rule sum.cong [OF refl]) (simp add: inv [OF a])
    also have "\<dots> = (\<Sum>m = 0..<?d. if m = idx ! i then get t (idx[i := m]) else 0)"
      by (rule sum.cong [OF refl]) auto
    also have "\<dots> = get t (idx[i := idx ! i])"
      using a by (simp add: sum.delta)
    finally show ?thesis by simp
  qed
  then have "tabulate ?sh (get (raise_lower_spec id M i (raise_lower_spec id N i t))) =
      tabulate ?sh (get t)"
    by (rule tabulate_cong)
  moreover have "wf_array (raise_lower_spec id M i (raise_lower_spec id N i t))"
    by (simp add: raise_lower_spec_def)
  ultimately show ?thesis
    using tabulate_get [of "raise_lower_spec id M i (raise_lower_spec id N i t)"]
      tabulate_get [OF wf]
    by simp
qed
section \<open>The round trip\<close>

lemma inverse_formsD:
  assumes "inverse_forms d metric" "r < d" "c < d"
  shows "(\<Sum>k = 0..<d. get (contravariant_form metric) [r, k] * get (covariant_form metric) [k, c]) =
           (if r = c then 1 else 0)"
    and "(\<Sum>k = 0..<d. get (covariant_form metric) [r, k] * get (contravariant_form metric) [k, c]) =
           (if r = c then 1 else 0)"
  using assms
  by (simp_all add: inverse_forms_def list_all_iff matrix_product_entry_def sum_list_upt_sum)

lemma metric_forms_inverse:
  assumes "inverse_forms d metric" "a = 1 \<or> a = - 1" "r < d" "c < d"
  shows "(\<Sum>k = 0..<d. get (metric_form_spec metric (- a)) [r, k] *
            get (metric_form_spec metric a) [k, c]) = (if r = c then 1 else 0)"
  using assms(2) inverse_formsD [OF assms(1,3,4)]
  by (auto simp: metric_form_spec_def)

lemma difference_list_swap:
  "config_checker_loop c1 \<Longrightarrow> config_checker_loop c2 \<Longrightarrow>
   difference_list c1 c2 = map uminus (difference_list c2 c1)"
proof (induction c1 arbitrary: c2)
  case Nil
  then show ?case by (cases c2) simp_all
next
  case (Cons n_ch c1)
  then show ?case by (cases c2) (auto split: if_splits)
qed

lemma shape_transform_spec:
  assumes "shape (covariant_form metric) = [d, d]" "shape (contravariant_form metric) = [d, d]"
    and "set acts \<subseteq> {0, 1, - 1}"
    and "\<forall>j < length acts. acts ! j \<noteq> 0 \<longrightarrow> i + j < rank t \<and> shape t ! (i + j) = d"
  shows "shape (transform_spec s metric i acts t) = shape t"
  using chain_config_change_transform_spec [OF assms] by simp

lemma raise_lower_transform_commute:
  fixes t :: "'a::comm_ring_1 ndarray"
  assumes "shape (covariant_form metric) = [d, d]" "shape (contravariant_form metric) = [d, d]"
    and "set acts \<subseteq> {0, 1, - 1}" and "i < i0" and "i < rank t"
    and "\<forall>j < length acts. acts ! j \<noteq> 0 \<longrightarrow> i0 + j < rank t \<and> shape t ! (i0 + j) = d"
  shows "raise_lower_spec id M i (transform_spec id metric i0 acts t) =
         transform_spec id metric i0 acts (raise_lower_spec id M i t)"
  using assms(3-6)
proof (induction acts arbitrary: i0 t)
  case Nil
  then show ?case by simp
next
  case (Cons a acts)
  have rest: "\<forall>j < length acts. acts ! j \<noteq> 0 \<longrightarrow>
      Suc i0 + j < rank t \<and> shape t ! (Suc i0 + j) = d"
    using Cons.prems(4) by fastforce
  show ?case
  proof (cases "a = 0")
    case True
    with Cons.IH [of "Suc i0" t] Cons.prems rest show ?thesis by simp
  next
    case False
    let ?F = "metric_form_spec metric a"
    from Cons.prems(4) False have i0: "i0 < rank t" and d0: "shape t ! i0 = d"
      by force+
    have r: "rank (raise_lower_spec id N k t) = rank t" for N k
      by (simp add: rank_def)
    have "raise_lower_spec id M i (transform_spec id metric i0 (a # acts) t) =
        raise_lower_spec id M i (transform_spec id metric (Suc i0) acts (raise_lower_spec id ?F i0 t))"
      using False by (simp add: step_spec_raise_lower [OF assms(1,2) i0 d0])
    also have "\<dots> = transform_spec id metric (Suc i0) acts
        (raise_lower_spec id M i (raise_lower_spec id ?F i0 t))"
      using Cons.prems(1,2,3) rest by (intro Cons.IH) (auto simp: rank_def)
    also have "raise_lower_spec id M i (raise_lower_spec id ?F i0 t) =
        raise_lower_spec id ?F i0 (raise_lower_spec id M i t)"
      using Cons.prems(2,3) i0 by (intro raise_lower_commute) auto
    also have "transform_spec id metric (Suc i0) acts
          (raise_lower_spec id ?F i0 (raise_lower_spec id M i t)) =
        transform_spec id metric i0 (a # acts) (raise_lower_spec id M i t)"
      using False i0 d0
      by (simp add: step_spec_raise_lower [OF assms(1,2), of i0 "raise_lower_spec id M i t"] rank_def)
    finally show ?thesis .
  qed
qed

lemma transform_spec_roundtrip:
  fixes t :: "'a::comm_ring_1 ndarray"
  assumes "shape (covariant_form metric) = [d, d]" "shape (contravariant_form metric) = [d, d]"
    and "inverse_forms d metric" and "wf_array t"
    and "set acts \<subseteq> {0, 1, - 1}"
    and "\<forall>j < length acts. acts ! j \<noteq> 0 \<longrightarrow> i + j < rank t \<and> shape t ! (i + j) = d"
  shows "transform_spec id metric i (map uminus acts) (transform_spec id metric i acts t) = t"
  using assms(5,6)
proof (induction acts arbitrary: i)
  case Nil
  then show ?case by simp
next
  case (Cons a acts)
  have sub: "set acts \<subseteq> {0, 1, - 1}" using Cons.prems(1) by simp
  have rest: "\<forall>j < length acts. acts ! j \<noteq> 0 \<longrightarrow>
      Suc i + j < rank t \<and> shape t ! (Suc i + j) = d"
    using Cons.prems(2) by fastforce
  have IH: "transform_spec id metric (Suc i) (map uminus acts)
      (transform_spec id metric (Suc i) acts t) = t"
    using sub rest by (rule Cons.IH)
  show ?case
  proof (cases "a = 0")
    case True
    have "transform_spec id metric i (map uminus (a # acts)) (transform_spec id metric i (a # acts) t) =
        transform_spec id metric (Suc i) (map uminus acts) (transform_spec id metric (Suc i) acts t)"
      unfolding True list.map by (simp only: transform_spec.simps minus_zero simp_thms if_True)
    with IH show ?thesis by (simp only:)
  next
    case False
    let ?F = "metric_form_spec metric a"
    let ?B = "metric_form_spec metric (- a)"
    let ?t1 = "raise_lower_spec id ?F i t"
    let ?u = "transform_spec id metric (Suc i) acts ?t1"
    from Cons.prems(1) False have a: "a = 1 \<or> a = - 1" by auto
    from Cons.prems(2) False have i: "i < rank t" and di: "shape t ! i = d"
      by force+
    have rest1: "\<forall>j < length acts. acts ! j \<noteq> 0 \<longrightarrow>
        Suc i + j < rank ?t1 \<and> shape ?t1 ! (Suc i + j) = d"
      using rest by (simp add: rank_def)
    have shu: "shape ?u = shape t"
      using shape_transform_spec [OF assms(1,2) sub rest1, of id] by simp
    have f: "transform_spec id metric i (a # acts) t = ?u"
      using False by (simp add: step_spec_raise_lower [OF assms(1,2) i di])
    have "transform_spec id metric i (map uminus (a # acts)) ?u =
        transform_spec id metric (Suc i) (map uminus acts) (raise_lower_spec id ?B i ?u)"
      using False i di shu
      by (simp add: step_spec_raise_lower [OF assms(1,2), of i ?u] rank_def)
    also have "raise_lower_spec id ?B i ?u =
        transform_spec id metric (Suc i) acts (raise_lower_spec id ?B i ?t1)"
      using sub rest1 i
      by (intro raise_lower_transform_commute [OF assms(1,2)]) (auto simp: rank_def)
    also have "raise_lower_spec id ?B i ?t1 = t"
      using assms(4) i
      by (intro raise_lower_inverse) (simp_all add: di metric_forms_inverse [OF assms(3) a])
    finally show ?thesis
      by (simp only: f IH)
  qed
qed

text \<open>
  Claim C6, as the code has it, for entries of exact arithmetic: the entries are values of
  a commutative ring (integers, rationals, symbolic expressions taken by their value), not
  floating-point numbers, whose products and sums round. Take a constructed Tensor with
  configuration \<open>c1\<close> whose array has one entry per index tuple (as every array of the
  library has), a valid configuration \<open>c2\<close> of the same length, and a metric whose two
  forms are \<open>d \<times> d\<close> arrays that are inverse matrices of each other, every position
  that changes being an axis of the array with extent \<open>d\<close>, and a simplifier that
  returns every entry with its value unchanged. Then the change to \<open>c2\<close> succeeds, and
  changing the Tensor built from its result and \<open>c2\<close> back to \<open>c1\<close> succeeds and
  returns the original array, entry by entry equal in value.
\<close>

theorem change_config_roundtrip:
  fixes T :: "'a::comm_ring_1 Tensor"
  assumes "Tensor_init a cfg = Inr T"
    and "wf_array (arr T)"
    and "config_checker (PStr c2)" and "length c2 = length (config T)"
    and "shape (covariant_form metric) = [d, d]" and "shape (contravariant_form metric) = [d, d]"
    and "inverse_forms d metric"
    and "\<forall>i < length c2. c2 ! i \<noteq> config T ! i \<longrightarrow> i < rank (arr T) \<and> shape (arr T) ! i = d"
    and "\<And>x. simplify x = x"
  shows "\<exists>a2 T2. change_config simplify T metric (PStr c2) = Inr a2 \<and>
           Tensor_init (SympyArray a2) (PStr c2) = Inr T2 \<and>
           change_config simplify T2 metric (PStr (config T)) = Inr (arr T)"
proof -
  let ?c1 = "config T"
  let ?a2 = "transform_spec simplify metric 0 (difference_list c2 ?c1) (arr T)"
  let ?T2 = "\<lparr>arr = ?a2, config = c2, order = length c2\<rparr>"
  have s: "simplify = id" using assms(9) by (simp add: fun_eq_iff)
  have c1: "config_checker_loop ?c1" using Tensor_init_Inr [OF assms(1)] by auto
  have c2: "config_checker_loop c2" using assms(3) by simp
  have fwd: "change_config simplify T metric (PStr c2) = Inr ?a2" and sh: "shape ?a2 = shape (arr T)"
    using change_config_transform_spec [OF c2 assms(4,5,6,8), of simplify] by simp_all
  have T2: "Tensor_init (SympyArray ?a2) (PStr c2) = Inr ?T2"
    using c2 by (simp add: Tensor_init_def)
  have ax: "\<forall>i < length ?c1. ?c1 ! i \<noteq> config ?T2 ! i \<longrightarrow>
      i < rank (arr ?T2) \<and> shape (arr ?T2) ! i = d"
    using assms(4,8) by (auto simp: sh rank_def)
  have "change_config simplify ?T2 metric (PStr ?c1) =
      Inr (transform_spec simplify metric 0 (difference_list ?c1 (config ?T2)) (arr ?T2))"
    using change_config_transform_spec [OF c1 _ assms(5,6) ax, of simplify] assms(4)
    by simp
  also have "transform_spec simplify metric 0 (difference_list ?c1 (config ?T2)) (arr ?T2) =
      transform_spec id metric 0 (map uminus (difference_list c2 ?c1))
        (transform_spec id metric 0 (difference_list c2 ?c1) (arr T))"
    by (simp add: s difference_list_swap [OF c1 c2])
  also have "\<dots> = arr T"
  proof (rule transform_spec_roundtrip [OF assms(5,6,7,2) set_difference_list])
    show "\<forall>j < length (difference_list c2 ?c1). difference_list c2 ?c1 ! j \<noteq> 0 \<longrightarrow>
        0 + j < rank (arr T) \<and> shape (arr T) ! (0 + j) = d"
      using assms(4,8) by (auto simp: difference_list_length difference_list_nth)
  qed
  finally have "change_config simplify ?T2 metric (PStr ?c1) = Inr (arr T)" .
  with fwd T2 show ?thesis by blast
qed

theorem change_config_roundtrip_witness:
  "Tensor_init (SympyArray (NDimArray [2, 2] [1, 2, 3, 4 :: int])) (PStr ''ll'') =
     Inr \<lparr>arr = NDimArray [2, 2] [1, 2, 3, 4], config = ''ll'', order = 2\<rparr> \<and>
   wf_array (NDimArray [2, 2] [1, 2, 3, 4 :: int]) \<and>
   config_checker (PStr ''ul'') \<and>
   inverse_forms 2 \<lparr>covariant_form = NDimArray [2, 2] [2, 1, 1, 1 :: int],
                    contravariant_form = NDimArray [2, 2] [1, - 1, - 1, 2]\<rparr> \<and>
   change_config id \<lparr>arr = NDimArray [2, 2] [1, 2, 3, 4 :: int], config = ''ll'', order = 2\<rparr>
     \<lparr>covariant_form = NDimArray [2, 2] [2, 1, 1, 1],
      contravariant_form = NDimArray [2, 2] [1, - 1, - 1, 2]\<rparr> (PStr ''ul'') =
     Inr (NDimArray [2, 2] [- 2, - 2, 5, 6]) \<and>
   change_config id \<lparr>arr = NDimArray [2, 2] [- 2, - 2, 5, 6 :: int], config = ''ul'', order = 2\<rparr>
     \<lparr>covariant_form = NDimArray [2, 2] [2, 1, 1, 1],
      contravariant_form = NDimArray [2, 2] [1, - 1, - 1, 2]\<rparr> (PStr ''ll'') =
     Inr (NDimArray [2, 2] [1, 2, 3, 4])"
proof -
  let ?T = "\<lparr>arr = NDimArray [2, 2] [1, 2, 3, 4 :: int], config = ''ll'', order = 2\<rparr>"
  let ?M = "\<lparr>covariant_form = NDimArray [2, 2] [2, 1, 1, 1 :: int],
             contravariant_form = NDimArray [2, 2] [1, - 1, - 1, 2]\<rparr>"
  have t: "Tensor_init (SympyArray (NDimArray [2, 2] [1, 2, 3, 4 :: int])) (PStr ''ll'') = Inr ?T"
    by (simp add: Tensor_init_def)
  have w: "wf_array (arr ?T)" by (simp add: wf_array_def)
  have c: "config_checker (PStr ''ul'')" by simp
  have l: "length ''ul'' = length (config ?T)" by simp
  have inv: "inverse_forms 2 ?M" by code_simp
  have ax: "\<forall>i < length ''ul''. ''ul'' ! i \<noteq> config ?T ! i \<longrightarrow>
      i < rank (arr ?T) \<and> shape (arr ?T) ! i = 2"
    by (simp add: less_Suc_eq rank_def)
  have fw: "change_config id ?T ?M (PStr ''ul'') = Inr (NDimArray [2, 2] [- 2, - 2, 5, 6])"
    by code_simp
  from change_config_roundtrip [OF t w c l _ _ inv ax, of id]
  obtain a2 T2 where
    "change_config id ?T ?M (PStr ''ul'') = Inr a2"
    "Tensor_init (SympyArray a2) (PStr ''ul'') = Inr T2"
    "change_config id T2 ?M (PStr (config ?T)) = Inr (arr ?T)"
    by auto
  with fw have "change_config id
      \<lparr>arr = NDimArray [2, 2] [- 2, - 2, 5, 6 :: int], config = ''ul'', order = 2\<rparr> ?M (PStr ''ll'') =
      Inr (NDimArray [2, 2] [1, 2, 3, 4])"
    by (auto simp: Tensor_init_def numeral_2_eq_2)
  with t w c inv fw show ?thesis by simp
qed

text \<open>
  Claim C6 as stated covers every Tensor and every metric with inverse forms: for a
  \<open>3 \<times> 3\<close> array and a \<open>2 \<times> 2\<close> metric that is its own inverse, the first conversion
  raises in the contraction, so there is no array to convert back.
\<close>

theorem change_config_roundtrip_extent_mismatch:
  "Tensor_init (SympyArray (NDimArray [3, 3] [1, 2, 3, 4, 5, 6, 7, 8, 9 :: int])) (PStr ''ll'') =
     Inr \<lparr>arr = NDimArray [3, 3] [1, 2, 3, 4, 5, 6, 7, 8, 9], config = ''ll'', order = 2\<rparr> \<and>
   config_checker (PStr ''ul'') \<and>
   inverse_forms 2 \<lparr>covariant_form = NDimArray [2, 2] [1, 0, 0, - 1 :: int],
                    contravariant_form = NDimArray [2, 2] [1, 0, 0, - 1]\<rparr> \<and>
   change_config id
     \<lparr>arr = NDimArray [3, 3] [1, 2, 3, 4, 5, 6, 7, 8, 9 :: int], config = ''ll'', order = 2\<rparr>
     \<lparr>covariant_form = NDimArray [2, 2] [1, 0, 0, - 1],
      contravariant_form = NDimArray [2, 2] [1, 0, 0, - 1]\<rparr> (PStr ''ul'') =
     Inl (ValueError ''cannot contract between axes of different dimension'')"
proof -
  have "inverse_forms 2 \<lparr>covariant_form = NDimArray [2, 2] [1, 0, 0, - 1 :: int],
                    contravariant_form = NDimArray [2, 2] [1, 0, 0, - 1]\<rparr>"
    by code_simp
  then show ?thesis
    by (simp add: Tensor_init_def rank_def change_config_def Tensor_tensor_def
        tensorcontraction_def tensorproduct_def)
qed

end
